theory Spec2Isabelle
  imports Main "HOL-Library.Word"
begin

unbundle bit_operations_syntax


section \<open>Go strings as byte lists\<close>

text \<open>
  A Go \<open>string\<close> and a \<open>[]byte\<close> are both sequences of bytes; both are modelled as
  \<open>string\<close> (a list of 8-bit \<open>char\<close>). The functions of the packages \<open>strings\<close>,
  \<open>strconv\<close> and \<open>net/url\<close> that the proxy calls are written out below with the
  behaviour the Go standard library documents for them.
\<close>

definition HasPrefix :: "string \<Rightarrow> string \<Rightarrow> bool" where
  \<comment> \<open>\<open>strings.HasPrefix(s, prefix)\<close>: \<open>len(s) >= len(prefix) && s[:len(prefix)] == prefix\<close>\<close>
  "HasPrefix s p = (length p \<le> length s \<and> take (length p) s = p)"

definition HasSuffix :: "string \<Rightarrow> string \<Rightarrow> bool" where
  \<comment> \<open>\<open>strings.HasSuffix(s, suffix)\<close>\<close>
  "HasSuffix s p = (length p \<le> length s \<and> drop (length s - length p) s = p)"

fun Split :: "string \<Rightarrow> char \<Rightarrow> string list" where
  \<comment> \<open>\<open>strings.Split(s, sep)\<close> for a separator of one byte, which is what every call
      site passes (a line feed, a comma, a hyphen): the pieces between the separators, one
      more than there are separators.\<close>
  "Split [] sep = [[]]"
| "Split (c # cs) sep =
     (if c = sep then [] # Split cs sep
      else (let r = Split cs sep in (c # hd r) # tl r))"

fun Join :: "string list \<Rightarrow> string \<Rightarrow> string" where
  \<comment> \<open>\<open>strings.Join(elems, sep)\<close>\<close>
  "Join [] sep = []"
| "Join [x] sep = x"
| "Join (x # y # ys) sep = x @ sep @ Join (y # ys) sep"

text \<open>
  \<open>strings.TrimSpace\<close> removes leading and trailing white space as \<open>unicode.IsSpace\<close>
  defines it. On bytes, these are the six ASCII characters and the UTF-8 encodings of
  U+0085, U+00A0, U+1680, U+2000 to U+200A, U+2028, U+2029, U+202F, U+205F and U+3000.
\<close>

definition space_runes :: "string list" where
  "space_runes =
    [[CHR 0x09], [CHR 0x0A], [CHR 0x0B], [CHR 0x0C], [CHR 0x0D], [CHR 0x20],
     [CHR 0xC2, CHR 0x85], [CHR 0xC2, CHR 0xA0],
     [CHR 0xE1, CHR 0x9A, CHR 0x80],
     [CHR 0xE2, CHR 0x80, CHR 0x80], [CHR 0xE2, CHR 0x80, CHR 0x81],
     [CHR 0xE2, CHR 0x80, CHR 0x82], [CHR 0xE2, CHR 0x80, CHR 0x83],
     [CHR 0xE2, CHR 0x80, CHR 0x84], [CHR 0xE2, CHR 0x80, CHR 0x85],
     [CHR 0xE2, CHR 0x80, CHR 0x86], [CHR 0xE2, CHR 0x80, CHR 0x87],
     [CHR 0xE2, CHR 0x80, CHR 0x88], [CHR 0xE2, CHR 0x80, CHR 0x89],
     [CHR 0xE2, CHR 0x80, CHR 0x8A],
     [CHR 0xE2, CHR 0x80, CHR 0xA8], [CHR 0xE2, CHR 0x80, CHR 0xA9],
     [CHR 0xE2, CHR 0x80, CHR 0xAF],
     [CHR 0xE2, CHR 0x81, CHR 0x9F],
     [CHR 0xE3, CHR 0x80, CHR 0x80]]"

definition leading_space :: "string \<Rightarrow> nat" where
  \<comment> \<open>the width in bytes of the white-space rune the string starts with, 0 if it starts
      with none\<close>
  "leading_space s =
     (case find (\<lambda>w. HasPrefix s w) space_runes of None \<Rightarrow> 0 | Some w \<Rightarrow> length w)"

definition trailing_space :: "string \<Rightarrow> nat" where
  "trailing_space s =
     (case find (\<lambda>w. HasSuffix s w) space_runes of None \<Rightarrow> 0 | Some w \<Rightarrow> length w)"

function TrimLeft :: "string \<Rightarrow> string" where
  "TrimLeft s = (if leading_space s = 0 then s else TrimLeft (drop (leading_space s) s))"
  by pat_completeness auto
termination
proof (relation "measure length")
  show "wf (measure length)" by simp
next
  fix s :: string
  assume a: "leading_space s \<noteq> 0"
  then obtain w where w: "find (\<lambda>w. HasPrefix s w) space_runes = Some w" "w \<noteq> []"
    by (auto simp: leading_space_def split: option.splits)
  then have "HasPrefix s w" by (auto simp: find_Some_iff)
  with w have "s \<noteq> []" by (auto simp: HasPrefix_def)
  with a show "(drop (leading_space s) s, s) \<in> measure length" by simp
qed

function TrimRight :: "string \<Rightarrow> string" where
  "TrimRight s =
     (if trailing_space s = 0 then s else TrimRight (take (length s - trailing_space s) s))"
  by pat_completeness auto
termination
proof (relation "measure length")
  show "wf (measure length)" by simp
next
  fix s :: string
  assume a: "trailing_space s \<noteq> 0"
  then obtain w where w: "find (\<lambda>w. HasSuffix s w) space_runes = Some w" "w \<noteq> []"
    by (auto simp: trailing_space_def split: option.splits)
  then have "HasSuffix s w" by (auto simp: find_Some_iff)
  with w have "s \<noteq> []" by (auto simp: HasSuffix_def)
  with a show "(take (length s - trailing_space s) s, s) \<in> measure length" by simp
qed

declare TrimLeft.simps [simp del] TrimRight.simps [simp del]

definition TrimSpace :: "string \<Rightarrow> string" where
  \<comment> \<open>\<open>strings.TrimSpace(s)\<close>\<close>
  "TrimSpace s = TrimRight (TrimLeft s)"

section \<open>Integers and their decimal text\<close>

text \<open>
  Go's \<open>int64\<close>, and \<open>int\<close> on the 64-bit platforms the proxy is built for, are 64-bit
  two's complement integers: arithmetic wraps around and comparisons are signed.
\<close>

type_synonym int64 = "64 word"

definition is_digit :: "char \<Rightarrow> bool" where
  "is_digit c = (48 \<le> (of_char c :: nat) \<and> (of_char c :: nat) \<le> 57)"

definition digit_char :: "nat \<Rightarrow> char" where
  "digit_char d = ''0123456789'' ! d"

fun nat_digits :: "nat \<Rightarrow> string" where
  \<comment> \<open>the decimal digits of a natural number, most significant first\<close>
  "nat_digits n = (if n < 10 then [digit_char n] else nat_digits (n div 10) @ [digit_char (n mod 10)])"

declare nat_digits.simps [simp del]

fun digits_val :: "string \<Rightarrow> nat \<Rightarrow> nat" where
  \<comment> \<open>the loop \<open>n = n*10 + (c - '0')\<close> over the characters\<close>
  "digits_val [] n = n"
| "digits_val (c # cs) n = digits_val cs (n * 10 + (of_char c - 48))"

definition ParseUint :: "string \<Rightarrow> nat option" where
  \<comment> \<open>\<open>strconv.ParseUint(s, 10, 64)\<close>: a syntax error on the empty string and on any
      character that is not a digit, a range error above \<open>2^64 - 1\<close>\<close>
  "ParseUint s =
     (if s = [] then None
      else if \<not> list_all is_digit s then None
      else if digits_val s 0 > 2 ^ 64 - 1 then None
      else Some (digits_val s 0))"

definition ParseInt :: "string \<Rightarrow> int64 option" where
  \<comment> \<open>\<open>strconv.ParseInt(s, 10, 64)\<close>: an optional sign, then \<open>ParseUint\<close>; a range error
      outside \<open>-2^63 .. 2^63 - 1\<close>. \<open>None\<close> is a non-nil error.\<close>
  "ParseInt s =
     (if s = [] then None
      else
        let neg = (hd s = CHR ''-'');
            body = (if hd s = CHR ''+'' \<or> hd s = CHR ''-'' then tl s else s)
        in case ParseUint body of
             None \<Rightarrow> None
           | Some un \<Rightarrow>
               if \<not> neg \<and> un \<ge> 2 ^ 63 then None
               else if neg \<and> un > 2 ^ 63 then None
               else Some (if neg then - (word_of_nat un) else word_of_nat un))"

definition Atoi :: "string \<Rightarrow> int64 option" where
  \<comment> \<open>\<open>strconv.Atoi(s)\<close>, which is \<open>ParseInt(s, 10, 0)\<close> converted to \<open>int\<close>\<close>
  "Atoi s = ParseInt s"

definition FormatInt :: "int64 \<Rightarrow> string" where
  \<comment> \<open>\<open>strconv.FormatInt(i, 10)\<close>, also \<open>strconv.Itoa\<close> and the verb \<open>%d\<close> of \<open>fmt\<close>\<close>
  "FormatInt i =
     (if sint i < 0 then CHR ''-'' # nat_digits (nat (- sint i)) else nat_digits (nat (sint i)))"

section \<open>The package net/url\<close>

definition upperhex :: "nat \<Rightarrow> char" where
  "upperhex d = ''0123456789ABCDEF'' ! d"

definition unreserved :: "char \<Rightarrow> bool" where
  \<comment> \<open>the bytes \<open>shouldEscape\<close> leaves alone in a query component: letters, digits and
      \<open>- _ . ~\<close>\<close>
  "unreserved c =
     (let n = (of_char c :: nat) in
        (97 \<le> n \<and> n \<le> 122) \<or> (65 \<le> n \<and> n \<le> 90) \<or> (48 \<le> n \<and> n \<le> 57) \<or>
        c = CHR ''-'' \<or> c = CHR ''_'' \<or> c = CHR ''.'' \<or> c = CHR ''~'')"

definition escape_byte :: "char \<Rightarrow> string" where
  "escape_byte c =
     (if c = CHR '' '' then ''+''
      else if unreserved c then [c]
      else [CHR ''%'', upperhex (of_char c div 16), upperhex (of_char c mod 16)])"

definition QueryEscape :: "string \<Rightarrow> string" where
  \<comment> \<open>\<open>url.QueryEscape(s)\<close>\<close>
  "QueryEscape s = concat (map escape_byte s)"

text \<open>
  Parsing a URL, resolving a reference against a parsed URL, printing a parsed URL and
  reading its host name without the port are the work of \<open>net/url\<close>. The proxy only
  passes strings in and takes results out, so these four functions are parameters of
  the model: \<open>'u\<close> stands for \<open>*url.URL\<close>, and \<open>None\<close> for a non-nil error.
\<close>

record 'u net_url =
  url_Parse :: "string \<Rightarrow> 'u option"
  url_ParseRef :: "'u \<Rightarrow> string \<Rightarrow> 'u option"
  url_String :: "'u \<Rightarrow> string"
  url_Hostname :: "'u \<Rightarrow> string"

section \<open>internal/util\<close>

fun any_allowed :: "string \<Rightarrow> string list \<Rightarrow> bool" where
  \<comment> \<open>the loop over \<open>allowHosts\<close>, returning at the first match\<close>
  "any_allowed hostname [] = False"
| "any_allowed hostname (allowed # rest) =
     (if hostname = allowed \<or> HasSuffix hostname (''.'' @ allowed) then True
      else any_allowed hostname rest)"

definition IsAllowedHost :: "'u net_url \<Rightarrow> string \<Rightarrow> string list \<Rightarrow> bool" where
  "IsAllowedHost L targetURL allowHosts =
     (if length allowHosts = 0 then False
      else case url_Parse L targetURL of
             None \<Rightarrow> False
           | Some parsed \<Rightarrow> any_allowed (url_Hostname L parsed) allowHosts)"

definition SanitizeURL :: "string \<Rightarrow> string" where
  "SanitizeURL input =
     (let input = TrimSpace input in
        if input = [] then []
        else if \<not> HasPrefix input ''http://'' \<and> \<not> HasPrefix input ''https://'' then []
        else input)"

definition BuildSignParams :: "string \<Rightarrow> string \<Rightarrow> string" where
  "BuildSignParams sign ts =
     (if sign = [] \<or> ts = [] then []
      else ''sign='' @ QueryEscape sign @ ''&ts='' @ QueryEscape ts)"

section \<open>internal/cache\<close>

text \<open>
  The cache keeps its entries in an LRU container of \<open>github.com/hashicorp/golang-lru/v2\<close>.
  The container is modelled as the list of its key and value pairs, most recently used
  first, with its capacity: \<open>Get\<close> moves a hit to the front; \<open>Add\<close> replaces the value of
  a present key and moves it to the front, and otherwise puts the pair at the front and
  drops the last pair (the least recently used) when the capacity is exceeded;
  \<open>Remove\<close> deletes a key; \<open>New\<close> fails on a capacity that is not positive.
\<close>

record ('k, 'v) lru =
  lru_size :: nat
  lru_items :: "('k \<times> 'v) list"

definition lru_New :: "int64 \<Rightarrow> ('k, 'v) lru option" where
  "lru_New n = (if sint n \<le> 0 then None else Some \<lparr> lru_size = nat (sint n), lru_items = [] \<rparr>)"

definition lru_Get :: "'k \<Rightarrow> ('k, 'v) lru \<Rightarrow> 'v option \<times> ('k, 'v) lru" where
  "lru_Get key c =
     (case map_of (lru_items c) key of
        None \<Rightarrow> (None, c)
      | Some v \<Rightarrow> (Some v, c\<lparr> lru_items := (key, v) # filter (\<lambda>p. fst p \<noteq> key) (lru_items c) \<rparr>))"

definition lru_Add :: "'k \<Rightarrow> 'v \<Rightarrow> ('k, 'v) lru \<Rightarrow> ('k, 'v) lru" where
  "lru_Add key v c =
     (case map_of (lru_items c) key of
        Some old \<Rightarrow> c\<lparr> lru_items := (key, v) # filter (\<lambda>p. fst p \<noteq> key) (lru_items c) \<rparr>
      | None \<Rightarrow>
          (let items = (key, v) # lru_items c
           in c\<lparr> lru_items := (if length items > lru_size c then butlast items else items) \<rparr>))"

definition lru_Remove :: "'k \<Rightarrow> ('k, 'v) lru \<Rightarrow> ('k, 'v) lru" where
  "lru_Remove key c = c\<lparr> lru_items := filter (\<lambda>p. fst p \<noteq> key) (lru_items c) \<rparr>"

text \<open>
  \<open>time.Time\<close> is an instant counted in nanoseconds (an unbounded \<open>int\<close>),
  \<open>time.Duration\<close> a 64-bit count of nanoseconds. Every operation that reads the clock
  takes the instant \<open>now\<close> it reads. A method called on the nil \<open>*lru.Cache\<close> panics:
  that outcome is \<open>None\<close>.
\<close>

record CacheEntry =
  Data :: string
  ExpiresAt :: int

record Cache =
  c_lru :: "(string, CacheEntry) lru option"
  c_ttl :: int64
  c_enabled :: bool

definition cache_New :: "int64 \<Rightarrow> int64 \<Rightarrow> bool \<Rightarrow> Cache" where
  "cache_New maxEntries ttlSeconds enabled =
     (if \<not> enabled \<or> sint maxEntries \<le> 0
      then \<lparr> c_lru = None, c_ttl = 0, c_enabled = False \<rparr>
      else \<lparr> c_lru = lru_New maxEntries, c_ttl = ttlSeconds * 1000000000, c_enabled = enabled \<rparr>)"

definition cache_Get :: "Cache \<Rightarrow> int \<Rightarrow> string \<Rightarrow> ((string \<times> bool) \<times> Cache) option" where
  "cache_Get c now key =
     (if \<not> c_enabled c then Some (([], False), c)
      else case c_lru c of
             None \<Rightarrow> None
           | Some l \<Rightarrow>
               (case lru_Get key l of
                  (None, l') \<Rightarrow> Some (([], False), c\<lparr> c_lru := Some l' \<rparr>)
                | (Some entry, l') \<Rightarrow>
                    if now > ExpiresAt entry
                    then Some (([], False), c\<lparr> c_lru := Some (lru_Remove key l') \<rparr>)
                    else Some ((Data entry, True), c\<lparr> c_lru := Some l' \<rparr>)))"

definition cache_Set :: "Cache \<Rightarrow> int \<Rightarrow> string \<Rightarrow> string \<Rightarrow> Cache option" where
  "cache_Set c now key data =
     (if \<not> c_enabled c then Some c
      else case c_lru c of
             None \<Rightarrow> None
           | Some l \<Rightarrow>
               Some (c\<lparr> c_lru := Some (lru_Add key \<lparr> Data = data, ExpiresAt = now + sint (c_ttl c) \<rparr> l) \<rparr>))"

definition IsEnabled :: "Cache \<Rightarrow> bool" where
  "IsEnabled c = c_enabled c"

text \<open>A caller's sequence of \<open>Set\<close> and \<open>Get\<close> calls, each at its own instant.\<close>

datatype cache_op = OpSet string string int | OpGet string int

fun run_ops :: "cache_op list \<Rightarrow> Cache \<Rightarrow> Cache option" where
  "run_ops [] c = Some c"
| "run_ops (OpSet key data now # ops) c =
     (case cache_Set c now key data of None \<Rightarrow> None | Some c' \<Rightarrow> run_ops ops c')"
| "run_ops (OpGet key now # ops) c =
     (case cache_Get c now key of None \<Rightarrow> None | Some (r, c') \<Rightarrow> run_ops ops c')"

definition entries :: "Cache \<Rightarrow> (string \<times> CacheEntry) list" where
  \<comment> \<open>what the container holds, most recently used first\<close>
  "entries c = (case c_lru c of None \<Rightarrow> [] | Some l \<Rightarrow> lru_items l)"



text \<open>
  The invariant of an enabled cache of capacity \<open>n\<close>: the container is allocated, holds
  at most \<open>n\<close> pairs, and no key twice.
\<close>

definition cache_ok :: "nat \<Rightarrow> Cache \<Rightarrow> bool" where
  "cache_ok n c = (c_enabled c \<and> (\<exists>l. c_lru c = Some l \<and> lru_size l = n \<and>
      length (lru_items l) \<le> n \<and> distinct (map fst (lru_items l))))"





section \<open>The server: serving a byte range\<close>

text \<open>
  An \<open>http.ResponseWriter\<close> is modelled by what has been written to it: the header map,
  the status code once \<open>WriteHeader\<close> has been called (\<open>None\<close> before), and the body.
\<close>

record response =
  r_header :: "string \<Rightarrow> string option"
  r_status :: "nat option"
  r_body :: string

definition Header_Set :: "string \<Rightarrow> string \<Rightarrow> response \<Rightarrow> response" where
  \<comment> \<open>\<open>w.Header().Set(key, value)\<close>\<close>
  "Header_Set k v w = w\<lparr> r_header := (r_header w)(k \<mapsto> v) \<rparr>"

definition WriteHeader :: "nat \<Rightarrow> response \<Rightarrow> response" where
  \<comment> \<open>\<open>w.WriteHeader(code)\<close>: the first call fixes the status\<close>
  "WriteHeader code w = (if r_status w = None then w\<lparr> r_status := Some code \<rparr> else w)"

definition Write :: "string \<Rightarrow> response \<Rightarrow> response" where
  \<comment> \<open>\<open>w.Write(data)\<close>: status 200 if none was written before\<close>
  "Write data w = (WriteHeader 200 w)\<lparr> r_body := r_body w @ data \<rparr>"

definition slice_bytes :: "string \<Rightarrow> int64 \<Rightarrow> int64 \<Rightarrow> string option" where
  \<comment> \<open>\<open>content[lo:hi]\<close>. With \<open>0 <= lo <= hi <= len(content)\<close> it is the bytes \<open>lo\<close> to
      \<open>hi - 1\<close>; outside these bounds the expression panics or reads spare capacity, and
      the model returns \<open>None\<close>.\<close>
  "slice_bytes content lo hi =
     (if 0 \<le> sint lo \<and> sint lo \<le> sint hi \<and> sint hi \<le> int (length content)
      then Some (take (nat (sint hi) - nat (sint lo)) (drop (nat (sint lo)) content))
      else None)"

definition handleRangeRequest :: "response \<Rightarrow> string \<Rightarrow> string \<Rightarrow> response option" where
  "handleRangeRequest w content rangeHeader =
     (let contentLength = (word_of_nat (length content) :: int64) in
      if \<not> HasPrefix rangeHeader ''bytes='' then Some (WriteHeader 416 w)
      else
        let rangeSpec = drop 6 rangeHeader;
            parts = Split rangeSpec (CHR ''-'')
        in
        if length parts \<noteq> 2 then Some (WriteHeader 416 w)
        else
          case (if parts ! 0 \<noteq> []
                then (case Atoi (parts ! 0) of
                        None \<Rightarrow> None
                      | Some start \<Rightarrow> if sint start < 0 then None else Some start)
                else Some 0) of
            None \<Rightarrow> Some (WriteHeader 416 w)
          | Some start \<Rightarrow>
              (case (if parts ! 1 \<noteq> []
                     then (case Atoi (parts ! 1) of
                             None \<Rightarrow> None
                           | Some end \<Rightarrow>
                               if sint end \<ge> sint contentLength then None else Some end)
                     else Some (contentLength - 1)) of
                 None \<Rightarrow> Some (WriteHeader 416 w)
               | Some end \<Rightarrow>
                   if sint start > sint end then Some (WriteHeader 416 w)
                   else
                     let w1 = Header_Set ''Content-Range''
                                (''bytes '' @ FormatInt start @ ''-'' @ FormatInt end @ ''/''
                                  @ FormatInt contentLength) w;
                         w2 = Header_Set ''Content-Length'' (FormatInt (end - start + 1)) w1;
                         w3 = WriteHeader 206 w2
                     in case slice_bytes content start (end + 1) of
                          None \<Rightarrow> None
                        | Some body \<Rightarrow> Some (Write body w3)))"

definition streamContent :: "response \<Rightarrow> string \<Rightarrow> string \<Rightarrow> string \<Rightarrow> response option" where
  \<comment> \<open>\<open>rangeHeader\<close> is \<open>r.Header.Get("Range")\<close>, empty when the request has none\<close>
  "streamContent w content contentType rangeHeader =
     (let w1 = Header_Set ''Content-Type'' contentType w;
          w2 = Header_Set ''Accept-Ranges'' ''bytes'' w1;
          w3 = Header_Set ''Content-Length''
                 (FormatInt (word_of_nat (length content))) w2
      in if rangeHeader \<noteq> [] then handleRangeRequest w3 content rangeHeader
         else Some (Write content w3))"

definition range_response :: "response \<Rightarrow> string \<Rightarrow> int64 \<Rightarrow> int64 \<Rightarrow> response" where
  \<comment> \<open>the answer to a satisfiable range: status 206, the \<open>Content-Range\<close> and
      \<open>Content-Length\<close> headers, and the bytes \<open>start\<close> to \<open>end\<close> of the payload\<close>
  "range_response w content start end =
     w\<lparr> r_header := (r_header w)
            (''Content-Range'' \<mapsto> ''bytes '' @ FormatInt start @ ''-'' @ FormatInt end @ ''/''
                                  @ FormatInt (word_of_nat (length content)),
             ''Content-Length'' \<mapsto> FormatInt (end - start + 1)),
        r_status := Some 206,
        r_body := take (nat (sint end - sint start + 1)) (drop (nat (sint start)) content) \<rparr>"

section \<open>internal/signer\<close>

text \<open>
  The signature is \<open>hex.EncodeToString\<close> of the HMAC of the payload under the secret,
  with SHA-256 as the hash. \<open>crypto/hmac\<close> is written out as RFC 2104 defines it: a key
  longer than the 64-byte block is replaced by its hash, the key is padded with zero
  bytes to the block size, and the result is
  \<open>H((key xor opad) || H((key xor ipad) || message))\<close>. The hash itself is a parameter
  \<open>H\<close> of the model: \<open>H m\<close> is the 32-byte SHA-256 digest of \<open>m\<close> read as one 256-bit
  number, most significant byte first.
\<close>

definition digest_bytes :: "256 word \<Rightarrow> string" where
  \<comment> \<open>the 32 bytes of a digest, most significant first\<close>
  "digest_bytes w = map (\<lambda>i. char_of (unat w div 256 ^ (31 - i) mod 256)) [0..<32]"

definition lowerhex :: "nat \<Rightarrow> char" where
  "lowerhex d = ''0123456789abcdef'' ! d"

definition EncodeToString :: "string \<Rightarrow> string" where
  \<comment> \<open>\<open>hex.EncodeToString(src)\<close>: two lower-case hexadecimal digits for each byte\<close>
  "EncodeToString src =
     concat (map (\<lambda>c. [lowerhex (of_char c div 16), lowerhex (of_char c mod 16)]) src)"

definition xor_byte :: "nat \<Rightarrow> char \<Rightarrow> char" where
  "xor_byte k c = char_of ((of_char c :: nat) XOR k)"

definition hmac_Sum :: "(string \<Rightarrow> 256 word) \<Rightarrow> string \<Rightarrow> string \<Rightarrow> 256 word" where
  \<comment> \<open>\<open>h := hmac.New(sha256.New, key); h.Write(message); h.Sum(nil)\<close>\<close>
  "hmac_Sum H key message =
     (let key = (if length key > 64 then digest_bytes (H key) else key);
          padded = key @ replicate (64 - length key) (CHR 0x00);
          ipad = map (xor_byte 0x36) padded;
          opad = map (xor_byte 0x5c) padded
      in H (opad @ digest_bytes (H (ipad @ message))))"

record Signer =
  s_secret :: string
  s_ttlSeconds :: int64
  s_enabled :: bool

datatype signer_error =
  SigningDisabled | MissingParameters | InvalidTimestamp | SignatureExpired | SignatureMismatch

definition signer_New :: "string \<Rightarrow> int64 \<Rightarrow> bool \<Rightarrow> Signer" where
  "signer_New secret ttlSeconds enabled =
     \<lparr> s_secret = secret, s_ttlSeconds = ttlSeconds, s_enabled = enabled \<rparr>"

definition signer_IsEnabled :: "Signer \<Rightarrow> bool" where
  "signer_IsEnabled s = s_enabled s"

text \<open>
  \<open>now\<close> is what \<open>time.Now().Unix()\<close> returns when the method reads the clock. An error of
  \<open>Generate\<close> is \<open>Inl\<close>; \<open>Verify\<close> returns \<open>None\<close> for the nil error.
\<close>

definition Generate ::
  "(string \<Rightarrow> 256 word) \<Rightarrow> Signer \<Rightarrow> int64 \<Rightarrow> string \<Rightarrow> signer_error + (string \<times> string)" where
  "Generate H s now url =
     (if \<not> s_enabled s then Inl SigningDisabled
      else
        let ts = FormatInt now;
            payload = url @ ''|'' @ ts;
            sign = EncodeToString (digest_bytes (hmac_Sum H (s_secret s) payload))
        in Inr (sign, ts))"

definition Verify ::
  "(string \<Rightarrow> 256 word) \<Rightarrow> Signer \<Rightarrow> int64 \<Rightarrow> string \<Rightarrow> string \<Rightarrow> string \<Rightarrow> signer_error option" where
  "Verify H s now url sign ts =
     (if \<not> s_enabled s then None
      else if sign = [] \<or> ts = [] then Some MissingParameters
      else
        case ParseInt ts of
          None \<Rightarrow> Some InvalidTimestamp
        | Some timestamp \<Rightarrow>
            if sint (now - timestamp) > sint (s_ttlSeconds s) then Some SignatureExpired
            else
              let payload = url @ ''|'' @ ts;
                  expectedSign = EncodeToString (digest_bytes (hmac_Sum H (s_secret s) payload))
              in if sign \<noteq> expectedSign then Some SignatureMismatch else None)"

definition example_hash :: "string \<Rightarrow> 256 word" where
  \<comment> \<open>An instance of the hash parameter for running examples. It is not SHA-256: it
      reads the first and the last byte of its input only.\<close>
  "example_hash m = word_of_nat (of_char (last m) + 256 * of_char (hd m))"

definition signature ::
  "(string \<Rightarrow> 256 word) \<Rightarrow> string \<Rightarrow> string \<Rightarrow> string \<Rightarrow> string" where
  \<comment> \<open>the text both methods compute: \<open>hex(HMAC-SHA256(url + "|" + ts, secret))\<close>\<close>
  "signature H secret url ts =
     EncodeToString (digest_bytes (hmac_Sum H secret (url @ ''|'' @ ts)))"

section \<open>internal/rewrite\<close>

record M3U8Rewriter =
  rw_baseURL :: string
  rw_segPrefix :: string
  rw_keyPrefix :: string
  rw_signParams :: string

definition NewM3U8Rewriter :: "string \<Rightarrow> string \<Rightarrow> string \<Rightarrow> string \<Rightarrow> M3U8Rewriter" where
  "NewM3U8Rewriter baseURL segPrefix keyPrefix signParams =
     \<lparr> rw_baseURL = baseURL, rw_segPrefix = segPrefix, rw_keyPrefix = keyPrefix,
       rw_signParams = signParams \<rparr>"

definition resolveURL :: "'u net_url \<Rightarrow> string \<Rightarrow> string \<Rightarrow> string" where
  "resolveURL L urlStr baseURL =
     (if HasPrefix urlStr ''http://'' \<or> HasPrefix urlStr ''https://'' then urlStr
      else case url_Parse L baseURL of
             None \<Rightarrow> urlStr
           | Some base \<Rightarrow>
               (case url_ParseRef L base urlStr of
                  None \<Rightarrow> urlStr
                | Some resolved \<Rightarrow> url_String L resolved))"

definition buildSegmentURL :: "M3U8Rewriter \<Rightarrow> string \<Rightarrow> string" where
  "buildSegmentURL r segmentURL =
     (let encoded = QueryEscape segmentURL;
          result = rw_baseURL r @ rw_segPrefix r @ ''?u='' @ encoded
      in if rw_signParams r \<noteq> [] then result @ ''&'' @ rw_signParams r else result)"

definition buildKeyURL :: "M3U8Rewriter \<Rightarrow> string \<Rightarrow> string" where
  "buildKeyURL r keyURL =
     (let encoded = QueryEscape keyURL;
          result = rw_baseURL r @ rw_keyPrefix r @ ''?u='' @ encoded
      in if rw_signParams r \<noteq> [] then result @ ''&'' @ rw_signParams r else result)"

text \<open>
  The loop of \<open>rewriteKeyLine\<close> walks the indices of \<open>parts\<close> and overwrites \<open>parts[i]\<close> in
  place; \<open>key_loop\<close> is that loop from index \<open>i\<close> on.
\<close>

function key_loop ::
  "'u net_url \<Rightarrow> M3U8Rewriter \<Rightarrow> string \<Rightarrow> nat \<Rightarrow> string list \<Rightarrow> string list" where
  "key_loop L r baseURL i parts =
     (if i < length parts then
        (let part = TrimSpace (parts ! i) in
         if HasPrefix part ''URI='' then
           (let uriPart = drop 4 part in
            if length uriPart \<ge> 2 \<and> uriPart ! 0 = CHR 0x22
               \<and> uriPart ! (length uriPart - 1) = CHR 0x22 then
              (let uri = take (length uriPart - 1 - 1) (drop 1 uriPart);
                   resolvedURI = resolveURL L uri baseURL;
                   proxyURI = buildKeyURL r resolvedURI
               in key_loop L r baseURL (Suc i)
                    (parts[i := ''URI='' @ [CHR 0x22] @ proxyURI @ [CHR 0x22]]))
            else key_loop L r baseURL (Suc i) parts)
         else key_loop L r baseURL (Suc i) parts)
      else parts)"
  by pat_completeness auto
termination
  by (relation "measure (\<lambda>(L, r, baseURL, i, parts). length parts - i)") auto

declare key_loop.simps [simp del]

definition rewriteKeyLine :: "'u net_url \<Rightarrow> M3U8Rewriter \<Rightarrow> string \<Rightarrow> string \<Rightarrow> string" where
  "rewriteKeyLine L r line baseURL =
     (let parts = Split line (CHR '','') in Join (key_loop L r baseURL 0 parts) '','')"

fun rewrite_loop ::
  "'u net_url \<Rightarrow> M3U8Rewriter \<Rightarrow> string \<Rightarrow> string list \<Rightarrow> string list \<Rightarrow> string list" where
  \<comment> \<open>the loop of \<open>Rewrite\<close> over the lines still to read, appending to \<open>result\<close>\<close>
  "rewrite_loop L r originalURL [] result = result"
| "rewrite_loop L r originalURL (line # lines) result =
     (let line = TrimSpace line in
      if line = [] \<or> HasPrefix line ''#'' then
        (let line = (if HasPrefix line ''#EXT-X-KEY:''
                     then rewriteKeyLine L r line originalURL else line)
         in rewrite_loop L r originalURL lines (result @ [line]))
      else
        (let segmentURL = resolveURL L line originalURL;
             proxyURL = buildSegmentURL r segmentURL
         in rewrite_loop L r originalURL lines (result @ [proxyURL])))"

definition Rewrite :: "'u net_url \<Rightarrow> M3U8Rewriter \<Rightarrow> string \<Rightarrow> string \<Rightarrow> string" where
  \<comment> \<open>the error the method also returns is always nil\<close>
  "Rewrite L r content originalURL =
     (let lines = Split content (CHR 0x0A) in
      Join (rewrite_loop L r originalURL lines []) [CHR 0x0A])"

text \<open>
  What the two loops do to one element, for stating the claims: \<open>key_part\<close> is the new
  value of one comma-separated piece of a key line, \<open>rewrite_line\<close> the output line for
  one input line.
\<close>

definition quoted_uri :: "string \<Rightarrow> bool" where
  \<comment> \<open>the condition of the loop body: the prefix \<open>URI=\<close>, then at least two characters,
      the first and the last of them a double quote\<close>
  "quoted_uri part =
     (HasPrefix part ''URI='' \<and> length (drop 4 part) \<ge> 2 \<and> drop 4 part ! 0 = CHR 0x22
        \<and> drop 4 part ! (length (drop 4 part) - 1) = CHR 0x22)"

definition key_part :: "'u net_url \<Rightarrow> M3U8Rewriter \<Rightarrow> string \<Rightarrow> string \<Rightarrow> string" where
  "key_part L r baseURL part =
     (if quoted_uri (TrimSpace part)
      then ''URI='' @ [CHR 0x22]
             @ buildKeyURL r
                 (resolveURL L (take (length (TrimSpace part) - 6) (drop 5 (TrimSpace part))) baseURL)
             @ [CHR 0x22]
      else part)"

definition rewrite_line :: "'u net_url \<Rightarrow> M3U8Rewriter \<Rightarrow> string \<Rightarrow> string \<Rightarrow> string" where
  "rewrite_line L r originalURL raw =
     (let line = TrimSpace raw in
      if line = [] \<or> HasPrefix line ''#'' then
        (if HasPrefix line ''#EXT-X-KEY:'' then rewriteKeyLine L r line originalURL else line)
      else buildSegmentURL r (resolveURL L line originalURL))"

section \<open>An instance of the URL functions for examples\<close>

text \<open>
  The theorems below hold for every instance of \<open>net_url\<close>. To run examples, this
  instance covers a fragment of \<open>net/url\<close> and answers \<open>None\<close> outside it, where
  \<open>net/url\<close> accepts more. A URL of the fragment is \<open>http://\<close> or \<open>https://\<close>, a host
  name of letters, digits and \<open>- _ . ~\<close>, optionally a colon and a decimal port, and a
  path of the same characters, colons and slashes (no query, fragment, user information
  or escapes). A reference is resolved when the path of the base and the reference
  hold no dot segment; the reference is then a URL of the fragment or a path of
  letters, digits, \<open>- _ . ~\<close> and slashes that does not start with two slashes.
\<close>

type_synonym simple_url = "string \<times> string \<times> string"

definition simple_char :: "char \<Rightarrow> bool" where
  "simple_char c = (unreserved c \<or> c = CHR '':'' \<or> c = CHR ''/'')"

definition simple_host :: "string \<Rightarrow> bool" where
  \<comment> \<open>a host name of the fragment, alone or followed by a colon and decimal digits\<close>
  "simple_host host =
     (let name = takeWhile (\<lambda>c. c \<noteq> CHR '':'') host;
          port = dropWhile (\<lambda>c. c \<noteq> CHR '':'') host
      in name \<noteq> [] \<and> list_all unreserved name \<and> list_all is_digit (drop 1 port))"

definition dot_free :: "string \<Rightarrow> bool" where
  \<comment> \<open>no segment of the path is \<open>.\<close> or \<open>..\<close>\<close>
  "dot_free path =
     (''.'' \<notin> set (Split path (CHR ''/'')) \<and> ''..'' \<notin> set (Split path (CHR ''/'')))"

definition simple_Parse :: "string \<Rightarrow> simple_url option" where
  "simple_Parse s =
     (let scheme = (if HasPrefix s ''http://'' then ''http''
                    else if HasPrefix s ''https://'' then ''https'' else []);
          rest = drop (length scheme + 3) s;
          host = takeWhile (\<lambda>c. c \<noteq> CHR ''/'') rest;
          path = dropWhile (\<lambda>c. c \<noteq> CHR ''/'') rest
      in if scheme = [] \<or> \<not> simple_host host \<or> \<not> list_all simple_char path then None
         else Some (scheme, host, path))"

definition simple_ParseRef :: "simple_url \<Rightarrow> string \<Rightarrow> simple_url option" where
  "simple_ParseRef base ref =
     (case base of (scheme, host, path) \<Rightarrow>
        if HasPrefix ref ''http://'' \<or> HasPrefix ref ''https://'' then
          (case simple_Parse ref of
             None \<Rightarrow> None
           | Some (scheme', host', path') \<Rightarrow>
               if dot_free path' then Some (scheme', host', path') else None)
        else if ref = [] \<or> \<not> list_all (\<lambda>c. unreserved c \<or> c = CHR ''/'') ref
                \<or> \<not> dot_free ref \<or> \<not> dot_free path \<or> HasPrefix ref ''//'' then None
        else if hd ref = CHR ''/'' then Some (scheme, host, ref)
        else Some (scheme, host,
               (if path = [] then ''/'' else rev (dropWhile (\<lambda>c. c \<noteq> CHR ''/'') (rev path))) @ ref))"

definition simple_urls :: "simple_url net_url" where
  "simple_urls =
     \<lparr> url_Parse = simple_Parse,
       url_ParseRef = simple_ParseRef,
       url_String = (\<lambda>(scheme, host, path). scheme @ ''://'' @ host @ path),
       url_Hostname = (\<lambda>(scheme, host, path). takeWhile (\<lambda>c. c \<noteq> CHR '':'') host) \<rparr>"

text \<open>The playlist, its URL and the rewriter of the examples.\<close>

definition example_url :: string where
  "example_url = ''https://cdn.example.com/v/a.m3u8''"

definition example_rewriter :: M3U8Rewriter where
  \<comment> \<open>as the play handler builds it, for the parameters \<open>sign=ab\<close> and \<open>ts=17\<close>\<close>
  "example_rewriter = NewM3U8Rewriter [] ''/seg'' ''/key'' (BuildSignParams ''ab'' ''17'')"

definition example_playlist :: string where
  "example_playlist =
     ''#EXTM3U'' @ [CHR 0x0D, CHR 0x0A]
     @ ''#EXT-X-KEY:METHOD=AES-128,URI='' @ [CHR 0x22] @ ''key.bin'' @ [CHR 0x22] @ [CHR 0x0A]
     @ ''https://cdn.example.com/v/seg0.ts'' @ [CHR 0x0A]
     @ '' seg1.ts'' @ [CHR 0x0A]"

definition comma_key_line :: string where
  "comma_key_line = ''#EXT-X-KEY:METHOD=AES-128,URI='' @ [CHR 0x22] @ ''a,b.key'' @ [CHR 0x22]"

section \<open>Splitting and joining\<close>

lemma Split_nonempty: "Split s sep \<noteq> []"
  by (induction s) (auto simp: Let_def)

lemma Split_no_sep: "sep \<notin> set s \<Longrightarrow> Split s sep = [s]"
  by (induction s) (auto simp: Let_def)

lemma Split_append: "sep \<notin> set a \<Longrightarrow> Split (a @ sep # b) sep = a # Split b sep"
  by (induction a) (auto simp: Let_def)

lemma Split_pieces: "p \<in> set (Split s sep) \<Longrightarrow> sep \<notin> set p"
proof (induction s arbitrary: p)
  case Nil
  then show ?case by simp
next
  case (Cons c cs)
  show ?case
  proof (cases "c = sep")
    case True
    with Cons show ?thesis by auto
  next
    case False
    from Split_nonempty [of cs sep] obtain q qs where q: "Split cs sep = q # qs"
      by (cases "Split cs sep") auto
    with Cons False show ?thesis by (auto simp: Let_def)
  qed
qed

lemma Join_Split: "Join (Split s sep) [sep] = s"
proof (induction s)
  case Nil
  show ?case by simp
next
  case (Cons c cs)
  from Split_nonempty [of cs sep] obtain q qs where q: "Split cs sep = q # qs"
    by (cases "Split cs sep") auto
  with Cons show ?case by (cases qs) (auto simp: Let_def)
qed

lemma Split_two_iff:
  "Split s sep = [a, b] \<longleftrightarrow> s = a @ sep # b \<and> sep \<notin> set a \<and> sep \<notin> set b"
proof
  assume h: "Split s sep = [a, b]"
  from Join_Split [of s sep] h have "s = a @ sep # b" by simp
  moreover from Split_pieces [of a s sep] Split_pieces [of b s sep] h
  have "sep \<notin> set a \<and> sep \<notin> set b" by simp
  ultimately show "s = a @ sep # b \<and> sep \<notin> set a \<and> sep \<notin> set b" by simp
next
  assume "s = a @ sep # b \<and> sep \<notin> set a \<and> sep \<notin> set b"
  then show "Split s sep = [a, b]" by (simp add: Split_append Split_no_sep)
qed

lemma length_Split_two:
  "length (Split s sep) = 2 \<longleftrightarrow> (\<exists>a b. s = a @ sep # b \<and> sep \<notin> set a \<and> sep \<notin> set b)"
proof -
  have "length (Split s sep) = 2 \<longleftrightarrow> (\<exists>a b. Split s sep = [a, b])"
    by (auto simp: numeral_2_eq_2 length_Suc_conv)
  then show ?thesis by (simp add: Split_two_iff)
qed

lemma HasPrefix_append: "HasPrefix (p @ s) p"
  by (simp add: HasPrefix_def)

lemma HasPrefix_iff: "HasPrefix s p \<longleftrightarrow> (\<exists>r. s = p @ r)"
  by (auto simp: HasPrefix_def) (metis append_take_drop_id)

section \<open>Decimal text: printing and parsing agree\<close>

lemma digit_cases: "n < 10 \<Longrightarrow> n \<in> {0, 1, 2, 3, 4, 5, 6, 7, 8, 9 :: nat}"
  by auto

lemma of_char_digit_char: "n < 10 \<Longrightarrow> (of_char (digit_char n) :: nat) = 48 + n"
  using digit_cases [of n] by (auto simp: digit_char_def)

lemma is_digit_digit_char: "n < 10 \<Longrightarrow> is_digit (digit_char n)"
  by (simp add: is_digit_def of_char_digit_char)

lemma nat_digits_nonempty: "nat_digits n \<noteq> []"
  by (subst nat_digits.simps) simp

lemma nat_digits_all_digit: "list_all is_digit (nat_digits n)"
proof (induction n rule: nat_digits.induct)
  case (1 n)
  show ?case
  proof (cases "n < 10")
    case True
    then show ?thesis by (subst nat_digits.simps) (simp add: is_digit_digit_char)
  next
    case False
    with 1 show ?thesis by (subst nat_digits.simps) (simp add: is_digit_digit_char)
  qed
qed

lemma digits_val_append: "digits_val (xs @ ys) a = digits_val ys (digits_val xs a)"
  by (induction xs arbitrary: a) auto

lemma digits_val_nat_digits: "digits_val (nat_digits n) 0 = n"
proof (induction n rule: nat_digits.induct)
  case (1 n)
  show ?case
  proof (cases "n < 10")
    case True
    then show ?thesis by (subst nat_digits.simps) (simp add: of_char_digit_char)
  next
    case False
    with 1 show ?thesis
      by (subst nat_digits.simps) (simp add: digits_val_append of_char_digit_char)
  qed
qed

lemma is_digit_not_sign: "is_digit c \<Longrightarrow> c \<noteq> CHR ''-'' \<and> c \<noteq> CHR ''+''"
  by (auto simp: is_digit_def)

lemma nat_digits_no_sign: "CHR ''-'' \<notin> set (nat_digits n) \<and> CHR ''+'' \<notin> set (nat_digits n)"
  using nat_digits_all_digit [of n] is_digit_not_sign
  by (auto simp: list_all_iff)

lemma hd_nat_digits: "hd (nat_digits n) \<noteq> CHR ''-'' \<and> hd (nat_digits n) \<noteq> CHR ''+''"
  using nat_digits_no_sign [of n] nat_digits_nonempty [of n]
  by (metis hd_in_set)

lemma ParseUint_nat_digits: "n < 2 ^ 64 \<Longrightarrow> ParseUint (nat_digits n) = Some n"
  by (simp add: ParseUint_def nat_digits_nonempty nat_digits_all_digit digits_val_nat_digits)

lemma ParseInt_nat_digits: "n < 2 ^ 63 \<Longrightarrow> ParseInt (nat_digits n) = Some (word_of_nat n)"
  using hd_nat_digits [of n]
  by (simp add: ParseInt_def nat_digits_nonempty ParseUint_nat_digits)

lemma ParseInt_minus_nat_digits:
  "n \<le> 2 ^ 63 \<Longrightarrow> ParseInt (CHR ''-'' # nat_digits n) = Some (- word_of_nat n)"
  by (simp add: ParseInt_def ParseUint_nat_digits)

lemma sint_int64_bounds: "- (2 ^ 63) \<le> sint (w :: int64) \<and> sint w < 2 ^ 63"
  using sint_ge [of w] sint_lt [of w] by simp

lemma word_of_int_sint_id: "word_of_int (sint w) = (w :: 'a::len word)"
  by (metis scast_eq scast_id)

lemma sint_word_of_int_64:
  "- (2 ^ 63) \<le> k \<Longrightarrow> k < 2 ^ 63 \<Longrightarrow> sint (word_of_int k :: int64) = k"
  by (simp add: sint_sbintrunc' signed_take_bit_int_eq_self)

lemma sint_word_of_nat: "n < 2 ^ 63 \<Longrightarrow> sint (word_of_nat n :: int64) = int n"
  using sint_word_of_int_64 [of "int n"] by simp

lemma ParseInt_FormatInt: "ParseInt (FormatInt w) = Some w"
proof (cases "sint w < 0")
  case True
  have "nat (- sint w) \<le> 2 ^ 63" using sint_int64_bounds [of w] by auto
  moreover have "- word_of_nat (nat (- sint w)) = w"
  proof -
    from True have "word_of_nat (nat (- sint w)) = (word_of_int (- sint w) :: int64)"
      by (simp add: word_of_int_nat)
    then show ?thesis by (simp add: word_of_int_sint_id wi_hom_syms)
  qed
  ultimately show ?thesis using True
    by (simp add: FormatInt_def ParseInt_minus_nat_digits)
next
  case False
  have "nat (sint w) < 2 ^ 63" using sint_int64_bounds [of w] False by auto
  moreover have "word_of_nat (nat (sint w)) = w"
  proof -
    from False have "word_of_nat (nat (sint w)) = (word_of_int (sint w) :: int64)"
      by (simp add: word_of_int_nat)
    then show ?thesis by (simp add: word_of_int_sint_id)
  qed
  ultimately show ?thesis using False
    by (simp add: FormatInt_def ParseInt_nat_digits)
qed

lemma FormatInt_of_nat: "n < 2 ^ 63 \<Longrightarrow> FormatInt (word_of_nat n) = nat_digits n"
  by (simp add: FormatInt_def sint_word_of_nat)

lemma FormatInt_nonempty: "FormatInt w \<noteq> []"
  by (simp add: FormatInt_def nat_digits_nonempty)

section \<open>The cache: invariant and eviction\<close>

lemma distinct_filter_fst: "distinct (map fst xs) \<Longrightarrow> distinct (map fst (filter P xs))"
  by (induction xs) auto

lemma distinct_butlast_fst: "distinct (map fst xs) \<Longrightarrow> distinct (map fst (butlast xs))"
  by (simp add: map_butlast distinct_butlast)

lemma length_filter_map_of:
  "map_of xs k = Some v \<Longrightarrow> length (filter (\<lambda>p. fst p \<noteq> k) xs) < length xs"
proof -
  assume "map_of xs k = Some v"
  then have "(k, v) \<in> set xs" by (rule map_of_SomeD)
  then show ?thesis by (rule length_filter_less) simp
qed


lemma cache_ok_Set:
  assumes "cache_ok n c" "0 < n"
  shows "\<exists>c'. cache_Set c now key data = Some c' \<and> cache_ok n c' \<and> c_ttl c' = c_ttl c"
proof -
  from assms obtain l where l: "c_enabled c" "c_lru c = Some l" "lru_size l = n"
    "length (lru_items l) \<le> n" "distinct (map fst (lru_items l))"
    by (auto simp: cache_ok_def)
  show ?thesis
  proof (cases "map_of (lru_items l) key")
    case None
    then have "key \<notin> fst ` set (lru_items l)" by (simp add: map_of_eq_None_iff)
    with l assms(2) None show ?thesis
      by (auto simp: cache_Set_def cache_ok_def lru_Add_def Let_def distinct_butlast_fst
          dest: in_set_butlastD)
  next
    case (Some old)
    from length_filter_map_of[OF Some] l
    show ?thesis using Some
      by (auto simp: cache_Set_def cache_ok_def lru_Add_def distinct_filter_fst)
  qed
qed

lemma cache_ok_Get:
  assumes "cache_ok n c"
  shows "\<exists>r c'. cache_Get c now key = Some (r, c') \<and> cache_ok n c' \<and> c_ttl c' = c_ttl c"
proof -
  from assms obtain l where l: "c_enabled c" "c_lru c = Some l" "lru_size l = n"
    "length (lru_items l) \<le> n" "distinct (map fst (lru_items l))"
    by (auto simp: cache_ok_def)
  show ?thesis
  proof (cases "map_of (lru_items l) key")
    case None
    with l show ?thesis by (auto simp: cache_Get_def cache_ok_def lru_Get_def)
  next
    case (Some e)
    have le: "length (filter (\<lambda>p. fst p \<noteq> key) (lru_items l)) \<le> length (lru_items l)"
      by simp
    from length_filter_map_of[OF Some] l le
    show ?thesis using Some
      by (auto simp: cache_Get_def cache_ok_def lru_Get_def lru_Remove_def distinct_filter_fst)
  qed
qed

lemma cache_ok_run:
  "cache_ok n c \<Longrightarrow> 0 < n \<Longrightarrow> \<exists>c'. run_ops ops c = Some c' \<and> cache_ok n c'"
proof (induction ops arbitrary: c)
  case Nil
  then show ?case by simp
next
  case (Cons op ops)
  show ?case
  proof (cases op)
    case (OpSet key data now)
    from cache_ok_Set[OF Cons.prems, of now key data]
    obtain c1 where "cache_Set c now key data = Some c1" "cache_ok n c1" by blast
    with Cons.IH[of c1] Cons.prems OpSet show ?thesis by simp
  next
    case (OpGet key now)
    from cache_ok_Get[OF Cons.prems(1), of now key]
    obtain r c1 where "cache_Get c now key = Some (r, c1)" "cache_ok n c1" by blast
    with Cons.IH[of c1] Cons.prems OpGet show ?thesis by simp
  qed
qed






















section \<open>Serving a byte range\<close>

lemma sint_plus_one:
  "sint (e :: int64) < 2 ^ 63 - 1 \<Longrightarrow> sint (e + 1) = sint e + 1"
  using sint_int64_bounds [of e]
  by (simp add: sint_word_add signed_take_bit_int_eq_self)

lemma sint_length_minus_one:
  "n < 2 ^ 63 \<Longrightarrow> sint ((word_of_nat n :: int64) - 1) = int n - 1"
  using sint_word_of_nat [of n]
  by (simp add: sint_word_diff signed_take_bit_int_eq_self)

lemma range_served:
  assumes len: "length content < 2 ^ 63"
    and fresh: "r_status w = None" "r_body w = []"
    and ok: "0 \<le> sint start" "sint start \<le> sint end" "sint end < int (length content)"
  shows "(case slice_bytes content start (end + 1) of
            None \<Rightarrow> None
          | Some body \<Rightarrow>
              Some (Write body (WriteHeader 206
                (Header_Set ''Content-Length'' (FormatInt (end - start + 1))
                  (Header_Set ''Content-Range''
                    (''bytes '' @ FormatInt start @ ''-'' @ FormatInt end @ ''/''
                       @ FormatInt (word_of_nat (length content))) w)))))
         = Some (range_response w content start end)"
proof -
  from ok len have "sint end < 2 ^ 63 - 1" by simp
  then have e1: "sint (end + 1) = sint end + 1" by (rule sint_plus_one)
  with ok have sl: "slice_bytes content start (end + 1)
      = Some (take (nat (sint end - sint start + 1)) (drop (nat (sint start)) content))"
    by (simp add: slice_bytes_def nat_diff_distrib' nat_add_distrib) (simp add: nat_diff_distrib' nat_add_distrib Suc_diff_le nat_le_eq_zle)
  show ?thesis
  by (simp add: sl Let_def Header_Set_def WriteHeader_def Write_def fresh range_response_def)
qed


lemma handleRangeRequest_parts:
  assumes pre: "HasPrefix rangeHeader ''bytes=''"
    and parts: "Split (drop 6 rangeHeader) (CHR ''-'') = [s, e]"
  shows "handleRangeRequest w content rangeHeader =
     (case (if s \<noteq> []
            then (case Atoi s of
                    None \<Rightarrow> None
                  | Some start \<Rightarrow> if sint start < 0 then None else Some start)
            else Some 0) of
        None \<Rightarrow> Some (WriteHeader 416 w)
      | Some start \<Rightarrow>
          (case (if e \<noteq> []
                 then (case Atoi e of
                         None \<Rightarrow> None
                       | Some fin \<Rightarrow>
                           if sint fin \<ge> sint (word_of_nat (length content) :: int64)
                           then None else Some fin)
                 else Some (word_of_nat (length content) - 1)) of
             None \<Rightarrow> Some (WriteHeader 416 w)
           | Some fin \<Rightarrow>
               if sint start > sint fin then Some (WriteHeader 416 w)
               else
                 (case slice_bytes content start (fin + 1) of
                    None \<Rightarrow> None
                  | Some body \<Rightarrow>
                      Some (Write body (WriteHeader 206
                        (Header_Set ''Content-Length'' (FormatInt (fin - start + 1))
                          (Header_Set ''Content-Range''
                            (''bytes '' @ FormatInt start @ ''-'' @ FormatInt fin @ ''/''
                               @ FormatInt (word_of_nat (length content))) w)))))))"
  unfolding handleRangeRequest_def Let_def parts nth_Cons_0 One_nat_def nth_Cons_Suc
  by (simp add: pre)

lemma range_request_form:
  assumes len: "length content < 2 ^ 63"
    and fresh: "r_status w = None" "r_body w = []"
    and a: "rangeHeader = ''bytes='' @ s @ ''-'' @ e
            \<and> CHR ''-'' \<notin> set s \<and> CHR ''-'' \<notin> set e
            \<and> (if s = [] then start = 0 else Atoi s = Some start)
            \<and> (if e = [] then fin = word_of_nat (length content) - 1 else Atoi e = Some fin)"
  shows "handleRangeRequest w content rangeHeader =
                (if 0 \<le> sint start \<and> sint fin < int (length content) \<and> sint start \<le> sint fin
                 then Some (range_response w content start fin)
                 else Some (w\<lparr> r_status := Some 416 \<rparr>))"
proof -
  let ?L = "word_of_nat (length content) :: int64"
  have sL: "sint ?L = int (length content)" using len by (rule sint_word_of_nat)
  have w416: "WriteHeader 416 w = w\<lparr> r_status := Some 416 \<rparr>"
    by (simp add: WriteHeader_def fresh)
  from a have pre: "HasPrefix rangeHeader ''bytes=''" by (simp add: HasPrefix_def)
  from a have parts: "Split (drop 6 rangeHeader) (CHR ''-'') = [s, e]"
    by (simp add: Split_two_iff)
  have se: "sint (?L - 1) = int (length content) - 1"
    using len by (rule sint_length_minus_one)
  from a have hs: "if s = [] then start = 0 else Atoi s = Some start"
    and he: "if e = [] then fin = ?L - 1 else Atoi e = Some fin" by simp_all
  note hp = handleRangeRequest_parts [OF pre parts, of w content]
  have r1: "(if s \<noteq> []
          then (case Atoi s of
                  None \<Rightarrow> None
                | Some start \<Rightarrow> if sint start < 0 then None else Some start)
          else Some 0) = (if sint start < 0 then None else Some start)"
    using hs by auto
  have r2: "(if e \<noteq> []
               then (case Atoi e of
                       None \<Rightarrow> None
                     | Some fin \<Rightarrow> if sint fin \<ge> sint ?L then None else Some fin)
               else Some (?L - 1)) = (if sint fin \<ge> sint ?L then None else Some fin)"
    using he se sL by auto
  show ?thesis
  proof (cases "0 \<le> sint start \<and> sint fin < int (length content) \<and> sint start \<le> sint fin")
    case True
    then have ok: "0 \<le> sint start" "sint start \<le> sint fin" "sint fin < int (length content)"
      by simp_all
    note rs = range_served [OF len fresh ok]
    from True show ?thesis
      unfolding hp r1 r2 by (simp add: sL rs)
  next
    case False
    then show ?thesis
      unfolding hp r1 r2 by (auto simp: sL w416)
  qed
qed

lemma range_request_other:
  assumes fresh: "r_status w = None"
    and n: "\<nexists>s e start fin.
              rangeHeader = ''bytes='' @ s @ ''-'' @ e
              \<and> CHR ''-'' \<notin> set s \<and> CHR ''-'' \<notin> set e
              \<and> (if s = [] then start = 0 else Atoi s = Some start)
              \<and> (if e = [] then fin = word_of_nat (length content) - 1 else Atoi e = Some fin)"
  shows "handleRangeRequest w content rangeHeader = Some (w\<lparr> r_status := Some 416 \<rparr>)"
proof -
  let ?L = "word_of_nat (length content) :: int64"
  have w416: "WriteHeader 416 w = w\<lparr> r_status := Some 416 \<rparr>"
    by (simp add: WriteHeader_def fresh)
  show ?thesis
  proof (cases "HasPrefix rangeHeader ''bytes='' \<and> length (Split (drop 6 rangeHeader) (CHR ''-'')) = 2")
    case False
    then show ?thesis
      unfolding handleRangeRequest_def Let_def by (auto simp: w416)
  next
    case True
    then obtain s e where se: "drop 6 rangeHeader = s @ CHR ''-'' # e"
      "CHR ''-'' \<notin> set s" "CHR ''-'' \<notin> set e"
      by (auto simp: length_Split_two)
    from True have "rangeHeader = ''bytes='' @ drop 6 rangeHeader"
      by (auto simp: HasPrefix_iff)
    with se have hdr: "rangeHeader = ''bytes='' @ s @ ''-'' @ e" by simp
    from se have parts: "Split (drop 6 rangeHeader) (CHR ''-'') = [s, e]"
      by (simp add: Split_two_iff)
    from n hdr se(2,3)
    have neg: "\<not> ((\<exists>start. if s = [] then start = 0 else Atoi s = Some start)
          \<and> (\<exists>fin. if e = [] then fin = ?L - 1 else Atoi e = Some fin))"
      by blast
    have "(s \<noteq> [] \<and> Atoi s = None) \<or> (e \<noteq> [] \<and> Atoi e = None)"
    proof (rule ccontr)
      assume c: "\<not> ((s \<noteq> [] \<and> Atoi s = None) \<or> (e \<noteq> [] \<and> Atoi e = None))"
      then have "\<exists>start. if s = [] then start = 0 else Atoi s = Some start"
        by (cases "s = []") auto
      moreover from c have "\<exists>fin. if e = [] then fin = ?L - 1 else Atoi e = Some fin"
        by (cases "e = []") auto
      ultimately show False using neg by blast
    qed
    then consider (bad_start) "s \<noteq> []" "Atoi s = None" | (bad_end) "e \<noteq> []" "Atoi e = None"
      by auto
    then show ?thesis
    proof cases
      case bad_start
      then show ?thesis
        unfolding handleRangeRequest_parts [of rangeHeader s e, OF conjunct1 [OF True] parts]
        by (simp add: w416)
    next
      case bad_end
      then show ?thesis
        unfolding handleRangeRequest_parts [of rangeHeader s e, OF conjunct1 [OF True] parts]
        by (simp add: w416 split: option.split)
    qed
  qed
qed

lemma range_request_multi:
  assumes fresh: "r_status w = None"
    and m: "rangeHeader = ''bytes='' @ a @ ''-'' @ b @ ''-'' @ c"
  shows "handleRangeRequest w content rangeHeader = Some (w\<lparr> r_status := Some 416 \<rparr>)"
proof (rule range_request_other [OF fresh])
  show "\<nexists>s e start fin.
              rangeHeader = ''bytes='' @ s @ ''-'' @ e
              \<and> CHR ''-'' \<notin> set s \<and> CHR ''-'' \<notin> set e
              \<and> (if s = [] then start = 0 else Atoi s = Some start)
              \<and> (if e = [] then fin = word_of_nat (length content) - 1 else Atoi e = Some fin)"
  proof (clarify)
    fix s e :: string
    assume h: "rangeHeader = ''bytes='' @ s @ ''-'' @ e" "CHR ''-'' \<notin> set s" "CHR ''-'' \<notin> set e"
    with m have "a @ ''-'' @ b @ ''-'' @ c = s @ ''-'' @ e" by simp
    then have "count_list (a @ ''-'' @ b @ ''-'' @ c) (CHR ''-'') = count_list (s @ ''-'' @ e) (CHR ''-'')"
      by simp
    with h(2,3) show False by (simp add: count_list_0_iff [THEN iffD2])
  qed
qed

section \<open>The signer: what Verify accepts\<close>

lemma length_digest_bytes: "length (digest_bytes w) = 32"
  by (simp add: digest_bytes_def)

lemma length_EncodeToString: "length (EncodeToString src) = 2 * length src"
  by (induction src) (simp_all add: EncodeToString_def)

lemma signature_nonempty: "signature H secret url ts \<noteq> []"
proof -
  have "length (signature H secret url ts) = 64"
    by (simp add: signature_def length_EncodeToString length_digest_bytes)
  then show ?thesis by auto
qed

lemma hmac_Sum_zero_padding:
  assumes "length key < 64"
  shows "hmac_Sum H (key @ [CHR 0x00]) message = hmac_Sum H key message"
proof -
  have pad: "(key @ [CHR 0x00]) @ replicate (64 - length (key @ [CHR 0x00])) (CHR 0x00)
        = key @ replicate (64 - length key) (CHR 0x00)"
    using assms by (simp add: replicate_Suc [symmetric] Suc_diff_Suc del: replicate_Suc)
  have k1: "(if length (key @ [CHR 0x00]) > 64 then digest_bytes (H (key @ [CHR 0x00]))
             else key @ [CHR 0x00]) = key @ [CHR 0x00]"
    using assms by simp
  have k2: "(if length key > 64 then digest_bytes (H key) else key) = key"
    using assms by simp
  show ?thesis
    unfolding hmac_Sum_def Let_def k1 k2 pad by (rule refl)
qed

lemma sint_diff_no_overflow:
  "- (2 ^ 63) \<le> sint a - sint b \<Longrightarrow> sint a - sint b < 2 ^ 63
     \<Longrightarrow> sint (a - b :: int64) = sint a - sint b"
  by (simp add: sint_word_diff signed_take_bit_int_eq_self)

lemma Verify_disabled: "\<not> s_enabled s \<Longrightarrow> Verify H s now url sign ts = None"
  by (simp add: Verify_def)

lemma Verify_None_iff:
  assumes "s_enabled s"
  shows "Verify H s now url sign ts = None \<longleftrightarrow>
     sign \<noteq> [] \<and> ts \<noteq> []
     \<and> (\<exists>t. ParseInt ts = Some t \<and> sint (now - t) \<le> sint (s_ttlSeconds s))
     \<and> sign = signature H (s_secret s) url ts"
  using assms
  by (auto simp: Verify_def signature_def Let_def split: option.splits)

lemma Verify_expired_iff:
  assumes "s_enabled s"
  shows "Verify H s now url sign ts = Some SignatureExpired \<longleftrightarrow>
     sign \<noteq> [] \<and> ts \<noteq> []
     \<and> (\<exists>t. ParseInt ts = Some t \<and> sint (now - t) > sint (s_ttlSeconds s))"
  using assms
  by (auto simp: Verify_def Let_def split: option.splits)

lemma Generate_enabled:
  "s_enabled s \<Longrightarrow> Generate H s now url
     = Inr (signature H (s_secret s) url (FormatInt now), FormatInt now)"
  by (simp add: Generate_def signature_def Let_def)

lemma Verify_fresh:
  assumes en: "s_enabled s"
    and t: "sint now \<le> sint now'" "sint now' - sint now \<le> sint (s_ttlSeconds s)"
  shows "Verify H s now' url (signature H (s_secret s) url (FormatInt now)) (FormatInt now) = None"
proof -
  have "sint (s_ttlSeconds s) < 2 ^ 63" using sint_int64_bounds [of "s_ttlSeconds s"] by simp
  with t have "sint (now' - now) = sint now' - sint now"
    by (intro sint_diff_no_overflow) auto
  with t show ?thesis
    by (simp add: Verify_None_iff [OF en] signature_nonempty FormatInt_nonempty ParseInt_FormatInt)
qed

lemma signature_zero_padding:
  "length secret < 64 \<Longrightarrow> signature H (secret @ [CHR 0x00]) url ts = signature H secret url ts"
  by (simp add: signature_def hmac_Sum_zero_padding)

lemma Verify_zero_padded_secret:
  assumes en: "s_enabled s" and short: "length (s_secret s) < 64"
    and ok: "Verify H s now url sign ts = None"
  shows "Verify H (s\<lparr> s_secret := s_secret s @ [CHR 0x00] \<rparr>) now url sign ts = None"
proof -
  have en': "s_enabled (s\<lparr> s_secret := s_secret s @ [CHR 0x00] \<rparr>)" using en by simp
  from ok show ?thesis
    unfolding Verify_None_iff [OF en] Verify_None_iff [OF en']
    by (auto simp: signature_zero_padding [OF short])
qed

lemma Verify_future:
  assumes "0 \<le> sint (s_ttlSeconds s)" "0 \<le> sint now" "ParseInt ts = Some t" "sint now < sint t"
  shows "sint (now - t) \<le> sint (s_ttlSeconds s)"
proof -
  have "sint t < 2 ^ 63" using sint_int64_bounds [of t] by simp
  with assms have "sint (now - t) = sint now - sint t"
    by (intro sint_diff_no_overflow) auto
  with assms show ?thesis by simp
qed

text \<open>Values of the examples.\<close>

lemma example_signatures:
  "signature example_hash ''z2'' ''u'' ''1700000000'' \<noteq> signature example_hash ''k1'' ''u'' ''1700000000''"
  "signature example_hash ''k1'' ''u'' ''1700000001'' \<noteq> signature example_hash ''k1'' ''u'' ''1700000000''"
  by (simp_all add: signature_def EncodeToString_def digest_bytes_def hmac_Sum_def example_hash_def
        xor_byte_def lowerhex_def upt_rec unat_of_nat)

lemma example_parse:
  "ParseInt ''1700000000'' = Some 1700000000"
  "ParseInt ''1800000000'' = Some 1800000000"
  "ParseInt ''101'' = Some 101"
  "ParseInt ''-9223372036854775808'' = Some (- 9223372036854775808)"
  by (simp_all add: ParseInt_def ParseUint_def is_digit_def)

lemma example_format: "FormatInt 1700000000 = ''1700000000''"
  by (simp add: FormatInt_def nat_digits.simps digit_char_def)

section \<open>The rewriter: the loops as maps\<close>

lemma quoted_uri_iff:
  "quoted_uri p \<longleftrightarrow> (\<exists>v. p = ''URI='' @ [CHR 0x22] @ v @ [CHR 0x22])"
proof
  assume q: "quoted_uri p"
  then obtain u where p: "p = ''URI='' @ u" and u: "u = drop 4 p"
    by (auto simp: quoted_uri_def HasPrefix_iff)
  from q u have l: "length u \<ge> 2" and h: "u ! 0 = CHR 0x22" and t: "u ! (length u - 1) = CHR 0x22"
    by (simp_all add: quoted_uri_def)
  from l obtain a m where am: "u = a # m" "m \<noteq> []" by (cases u) (auto simp: Suc_le_eq)
  then obtain v b where vb: "m = v @ [b]" by (metis rev_exhaust)
  from h am have "a = CHR 0x22" by simp
  moreover from t am vb have "b = CHR 0x22" by (simp add: nth_append)
  ultimately show "\<exists>v. p = ''URI='' @ [CHR 0x22] @ v @ [CHR 0x22]"
    using p am vb by simp
next
  assume "\<exists>v. p = ''URI='' @ [CHR 0x22] @ v @ [CHR 0x22]"
  then show "quoted_uri p"
    by (auto simp: quoted_uri_def HasPrefix_def nth_append)
qed

lemma key_part_quoted:
  assumes "TrimSpace part = ''URI='' @ [CHR 0x22] @ v @ [CHR 0x22]"
  shows "key_part L r baseURL part
     = ''URI='' @ [CHR 0x22] @ buildKeyURL r (resolveURL L v baseURL) @ [CHR 0x22]"
proof -
  from assms have "quoted_uri (TrimSpace part)" by (auto simp: quoted_uri_iff)
  moreover from assms have "take (length (TrimSpace part) - 6) (drop 5 (TrimSpace part)) = v"
    by simp
  ultimately show ?thesis by (simp add: key_part_def)
qed

lemma key_part_other:
  assumes "\<nexists>v. TrimSpace part = ''URI='' @ [CHR 0x22] @ v @ [CHR 0x22]"
  shows "key_part L r baseURL part = part"
  using assms by (simp add: key_part_def quoted_uri_iff)

lemma key_loop_step:
  assumes "i < length parts"
  shows "key_loop L r baseURL i parts
     = key_loop L r baseURL (Suc i) (parts[i := key_part L r baseURL (parts ! i)])"
proof (cases "quoted_uri (TrimSpace (parts ! i))")
  case True
  then have "HasPrefix (TrimSpace (parts ! i)) ''URI=''"
    and "2 \<le> length (TrimSpace (parts ! i)) - 4"
    and "drop 4 (TrimSpace (parts ! i)) ! 0 = CHR 0x22"
    and "drop 4 (TrimSpace (parts ! i)) ! (length (TrimSpace (parts ! i)) - 5) = CHR 0x22"
    by (simp_all add: quoted_uri_def)
  with assms True show ?thesis
    by (subst key_loop.simps) (simp add: key_part_def Let_def)
next
  case False
  then have "\<not> (HasPrefix (TrimSpace (parts ! i)) ''URI=''
      \<and> 2 \<le> length (drop 4 (TrimSpace (parts ! i)))
      \<and> drop 4 (TrimSpace (parts ! i)) ! 0 = CHR 0x22
      \<and> drop 4 (TrimSpace (parts ! i)) ! (length (drop 4 (TrimSpace (parts ! i))) - 1) = CHR 0x22)"
    by (simp add: quoted_uri_def)
  with assms False show ?thesis
    by (subst key_loop.simps) (auto simp: key_part_def Let_def)
qed

lemma key_loop_map:
  "length parts - i = n \<Longrightarrow>
   key_loop L r baseURL i parts = take i parts @ map (key_part L r baseURL) (drop i parts)"
proof (induction n arbitrary: i parts)
  case 0
  then show ?case by (subst key_loop.simps) simp
next
  case (Suc n)
  then have lt: "i < length parts" by simp
  let ?p = "parts[i := key_part L r baseURL (parts ! i)]"
  from Suc.prems have "length ?p - Suc i = n" by simp
  from Suc.IH [OF this] lt show ?case
    by (simp add: key_loop_step [OF lt] take_Suc_conv_app_nth flip: Cons_nth_drop_Suc)
qed

lemma rewriteKeyLine_map:
  "rewriteKeyLine L r line baseURL
     = Join (map (key_part L r baseURL) (Split line (CHR '',''))) '',''"
  by (simp add: rewriteKeyLine_def key_loop_map [OF refl])

lemma rewrite_loop_map:
  "rewrite_loop L r originalURL lines result
     = result @ map (rewrite_line L r originalURL) lines"
  by (induction lines arbitrary: result) (simp_all add: rewrite_line_def Let_def)

lemma Rewrite_map:
  "Rewrite L r content originalURL
     = Join (map (rewrite_line L r originalURL) (Split content (CHR 0x0A))) [CHR 0x0A]"
  by (simp add: Rewrite_def rewrite_loop_map)

lemma TrimRight_prefix: "\<exists>r. s = TrimRight s @ r"
proof (induction s rule: TrimRight.induct)
  case (1 s)
  show ?case
  proof (cases "trailing_space s = 0")
    case True
    then show ?thesis by (subst TrimRight.simps) simp
  next
    case False
    from 1 [OF False] obtain r where r: "take (length s - trailing_space s) s
        = TrimRight (take (length s - trailing_space s) s) @ r" by blast
    have "s = take (length s - trailing_space s) s @ drop (length s - trailing_space s) s"
      by simp
    with r have "s = TrimRight (take (length s - trailing_space s) s)
        @ (r @ drop (length s - trailing_space s) s)"
      by (metis append.assoc)
    then have "\<exists>r. s = TrimRight (take (length s - trailing_space s) s) @ r" by (rule exI)
    with False show ?thesis by (subst TrimRight.simps) simp
  qed
qed

lemma TrimLeft_suffix: "\<exists>l. s = l @ TrimLeft s"
proof (induction s rule: TrimLeft.induct)
  case (1 s)
  show ?case
  proof (cases "leading_space s = 0")
    case True
    then show ?thesis by (subst TrimLeft.simps) simp
  next
    case False
    from 1 [OF False] obtain l where l: "drop (leading_space s) s
        = l @ TrimLeft (drop (leading_space s) s)" by blast
    have "s = take (leading_space s) s @ drop (leading_space s) s" by simp
    with l have "s = (take (leading_space s) s @ l) @ TrimLeft (drop (leading_space s) s)"
      by (metis append.assoc)
    then have "\<exists>l. s = l @ TrimLeft (drop (leading_space s) s)" by (rule exI)
    with False show ?thesis by (subst TrimLeft.simps) simp
  qed
qed

lemma set_TrimSpace: "set (TrimSpace s) \<subseteq> set s"
proof -
  obtain l where l: "s = l @ TrimLeft s" using TrimLeft_suffix by blast
  obtain r where r: "TrimLeft s = TrimRight (TrimLeft s) @ r" using TrimRight_prefix by blast
  have "set (TrimRight (TrimLeft s)) \<subseteq> set (TrimLeft s)" by (subst (2) r) simp
  moreover have "set (TrimLeft s) \<subseteq> set s" by (subst (2) l) simp
  ultimately show ?thesis by (auto simp: TrimSpace_def)
qed

lemma leading_space_URI: "leading_space (''URI='' @ x) = 0"
  by (simp add: leading_space_def space_runes_def HasPrefix_def)

lemma TrimSpace_URI_prefix: "\<exists>rest. ''URI='' @ x = TrimSpace (''URI='' @ x) @ rest"
proof -
  have "TrimLeft (''URI='' @ x) = ''URI='' @ x"
    using leading_space_URI [of x] by (subst TrimLeft.simps) simp
  then show ?thesis using TrimRight_prefix [of "''URI='' @ x"] by (simp add: TrimSpace_def)
qed

lemma open_quote_piece:
  assumes "CHR 0x22 \<notin> set v1"
  shows "\<nexists>v. TrimSpace (''URI='' @ [CHR 0x22] @ v1) = ''URI='' @ [CHR 0x22] @ v @ [CHR 0x22]"
proof
  assume "\<exists>v. TrimSpace (''URI='' @ [CHR 0x22] @ v1) = ''URI='' @ [CHR 0x22] @ v @ [CHR 0x22]"
  then obtain v where v: "TrimSpace (''URI='' @ [CHR 0x22] @ v1) = ''URI='' @ [CHR 0x22] @ v @ [CHR 0x22]"
    by blast
  from TrimSpace_URI_prefix [of "[CHR 0x22] @ v1"] obtain rest
    where "''URI='' @ [CHR 0x22] @ v1 = TrimSpace (''URI='' @ [CHR 0x22] @ v1) @ rest" by blast
  with v have "v1 = v @ [CHR 0x22] @ rest" by simp
  with assms show False by simp
qed

lemma unquoted_value:
  assumes "TrimSpace part = ''URI='' @ x" "length x < 2 \<or> hd x \<noteq> CHR 0x22 \<or> last x \<noteq> CHR 0x22"
  shows "\<nexists>v. TrimSpace part = ''URI='' @ [CHR 0x22] @ v @ [CHR 0x22]"
  using assms by auto

lemma not_URI_piece:
  assumes "\<not> HasPrefix (TrimSpace part) ''URI=''"
  shows "\<nexists>v. TrimSpace part = ''URI='' @ [CHR 0x22] @ v @ [CHR 0x22]"
  using assms by (auto simp: HasPrefix_def)

lemma quoted_comma_free:
  assumes "part \<in> set (Split line (CHR '',''))"
    and "TrimSpace part = ''URI='' @ [CHR 0x22] @ v @ [CHR 0x22]"
  shows "CHR '','' \<notin> set v"
proof -
  from assms(1) have "CHR '','' \<notin> set part" by (rule Split_pieces)
  with set_TrimSpace [of part] have "CHR '','' \<notin> set (TrimSpace part)" by blast
  with assms(2) show ?thesis by simp
qed

lemma rewriteKeyLine_unchanged:
  assumes "\<forall>part \<in> set (Split line (CHR '','')). \<nexists>v. TrimSpace part = ''URI='' @ [CHR 0x22] @ v @ [CHR 0x22]"
  shows "rewriteKeyLine L r line baseURL = line"
proof -
  from assms have "map (key_part L r baseURL) (Split line (CHR '','')) = Split line (CHR '','')"
    by (intro map_idI) (simp add: key_part_other)
  then show ?thesis using Join_Split [of line "CHR '',''"] by (simp add: rewriteKeyLine_map)
qed

lemma buildKeyURL_eq:
  "buildKeyURL r u = rw_baseURL r @ rw_keyPrefix r @ ''?u='' @ QueryEscape u
      @ (if rw_signParams r = [] then [] else ''&'' @ rw_signParams r)"
  by (simp add: buildKeyURL_def Let_def)

lemma buildSegmentURL_eq:
  "buildSegmentURL r u = rw_baseURL r @ rw_segPrefix r @ ''?u='' @ QueryEscape u
      @ (if rw_signParams r = [] then [] else ''&'' @ rw_signParams r)"
  by (simp add: buildSegmentURL_def Let_def)

lemma resolveURL_cases:
  "(HasPrefix u ''http://'' \<or> HasPrefix u ''https://'' \<longrightarrow> resolveURL L u baseURL = u)
   \<and> (\<forall>base resolved. \<not> HasPrefix u ''http://'' \<and> \<not> HasPrefix u ''https://''
          \<and> url_Parse L baseURL = Some base \<and> url_ParseRef L base u = Some resolved
        \<longrightarrow> resolveURL L u baseURL = url_String L resolved)
   \<and> (\<not> HasPrefix u ''http://'' \<and> \<not> HasPrefix u ''https://''
          \<and> (url_Parse L baseURL = None
              \<or> (\<exists>base. url_Parse L baseURL = Some base \<and> url_ParseRef L base u = None))
        \<longrightarrow> resolveURL L u baseURL = u)"
  by (auto simp: resolveURL_def)

lemma BuildSignParams_verified:
  assumes "s_enabled s" "Verify H s now url sign ts = None"
  shows "BuildSignParams sign ts = ''sign='' @ QueryEscape sign @ ''&ts='' @ QueryEscape ts
     \<and> BuildSignParams sign ts \<noteq> []"
proof -
  from assms have "sign \<noteq> []" "ts \<noteq> []" by (auto simp: Verify_None_iff)
  then show ?thesis by (simp add: BuildSignParams_def)
qed

lemma rewrite_line_directive:
  assumes "TrimSpace raw = [] \<or> HasPrefix (TrimSpace raw) ''#''"
    and "\<not> HasPrefix (TrimSpace raw) ''#EXT-X-KEY:''"
  shows "rewrite_line L r originalURL raw = TrimSpace raw"
  using assms by (simp add: rewrite_line_def Let_def)

lemma rewrite_line_key:
  assumes "HasPrefix (TrimSpace raw) ''#EXT-X-KEY:''"
  shows "rewrite_line L r originalURL raw
     = Join (map (key_part L r originalURL) (Split (TrimSpace raw) (CHR '',''))) '',''"
proof -
  from assms obtain rest where "TrimSpace raw = ''#EXT-X-KEY:'' @ rest"
    by (auto simp: HasPrefix_iff)
  then have "HasPrefix (TrimSpace raw) ''#''" by (simp add: HasPrefix_def)
  with assms show ?thesis by (simp add: rewrite_line_def Let_def rewriteKeyLine_map)
qed

lemma rewrite_line_reference:
  assumes "TrimSpace raw \<noteq> []" "\<not> HasPrefix (TrimSpace raw) ''#''"
  shows "rewrite_line L r originalURL raw
     = rw_baseURL r @ rw_segPrefix r @ ''?u='' @ QueryEscape (resolveURL L (TrimSpace raw) originalURL)
         @ (if rw_signParams r = [] then [] else ''&'' @ rw_signParams r)"
  using assms by (simp add: rewrite_line_def Let_def buildSegmentURL_eq)

text \<open>Values of the examples.\<close>

lemma example_lines:
  "Join (map (rewrite_line simple_urls example_rewriter example_url)
           (Split example_playlist (CHR 0x0A))) [CHR 0x0A]
   = Join [''#EXTM3U'',
           ''#EXT-X-KEY:METHOD=AES-128,URI='' @ [CHR 0x22]
             @ ''/key?u=https%3A%2F%2Fcdn.example.com%2Fv%2Fkey.bin&sign=ab&ts=17'' @ [CHR 0x22],
           ''/seg?u=https%3A%2F%2Fcdn.example.com%2Fv%2Fseg0.ts&sign=ab&ts=17'',
           ''/seg?u=https%3A%2F%2Fcdn.example.com%2Fv%2Fseg1.ts&sign=ab&ts=17'',
           []] [CHR 0x0A]"
  by code_simp

lemma example_trims:
  "TrimSpace ('' seg1.ts'') = ''seg1.ts''"
  "TrimSpace (''URI='' @ [CHR 0x22] @ ''key.bin'' @ [CHR 0x22]) = ''URI='' @ [CHR 0x22] @ ''key.bin'' @ [CHR 0x22]"
  by code_simp+

lemma example_resolve:
  "resolveURL simple_urls ''seg1.ts'' example_url = ''https://cdn.example.com/v/seg1.ts''"
  "resolveURL simple_urls ''key.bin'' example_url = ''https://cdn.example.com/v/key.bin''"
  by code_simp+

lemma example_comma:
  "rewriteKeyLine simple_urls example_rewriter comma_key_line example_url = comma_key_line"
  "Rewrite simple_urls example_rewriter comma_key_line example_url = comma_key_line"
  "Rewrite simple_urls example_rewriter ''%zz.ts'' example_url = ''/seg?u=%25zz.ts&sign=ab&ts=17''"
  by code_simp+

lemma example_key_url:
  "buildKeyURL example_rewriter ''https://cdn.example.com/v/key.bin''
     = ''/key?u=https%3A%2F%2Fcdn.example.com%2Fv%2Fkey.bin&sign=ab&ts=17''"
  by code_simp

lemma example_not_rewritten:
  "comma_key_line \<noteq> ''#EXT-X-KEY:METHOD=AES-128,URI='' @ [CHR 0x22]
      @ buildKeyURL example_rewriter (resolveURL simple_urls ''a,b.key'' example_url) @ [CHR 0x22]"
  "''/seg?u=%25zz.ts&sign=ab&ts=17''
     \<noteq> buildSegmentURL example_rewriter ''https://cdn.example.com/v/%zz.ts''"
  by code_simp+

section \<open>Claims about the allow list\<close>

lemma any_allowed_iff:
  "any_allowed h hosts \<longleftrightarrow> (\<exists>a \<in> set hosts. h = a \<or> HasSuffix h (''.'' @ a))"
  by (induction hosts) auto

text \<open>
  C3. \<open>IsAllowedHost\<close> is true exactly when the URL parses and its host name (without
  the port) equals an entry of the allow list or ends with a dot followed by an entry.
  With an empty allow list it is false for every input, and it is false for a URL that
  does not parse.
\<close>

theorem IsAllowedHost_iff:
  "(IsAllowedHost L targetURL allowHosts \<longleftrightarrow>
      (\<exists>parsed. url_Parse L targetURL = Some parsed \<and>
         (\<exists>a \<in> set allowHosts.
            url_Hostname L parsed = a \<or> HasSuffix (url_Hostname L parsed) (''.'' @ a))))
   \<and> \<not> IsAllowedHost L targetURL []
   \<and> (url_Parse L targetURL = None \<longrightarrow> \<not> IsAllowedHost L targetURL allowHosts)"
  by (auto simp: IsAllowedHost_def any_allowed_iff split: option.splits)

theorem IsAllowedHost_witness:
  "IsAllowedHost simple_urls ''https://cdn.example.com/a.m3u8'' [''example.com'']
   \<and> IsAllowedHost simple_urls ''https://example.com:8443/a.m3u8'' [''example.com'']
   \<and> \<not> IsAllowedHost simple_urls ''https://badexample.com/a.m3u8'' [''example.com'']
   \<and> url_Parse simple_urls ''cdn.example.com'' = None
   \<and> \<not> IsAllowedHost simple_urls ''cdn.example.com'' [''example.com'']"
  using IsAllowedHost_iff [of simple_urls "''cdn.example.com''" "[''example.com'']"]
  by (simp add: IsAllowedHost_def simple_urls_def simple_Parse_def simple_host_def is_digit_def
        HasPrefix_def HasSuffix_def simple_char_def unreserved_def)

section \<open>Claims about the cache\<close>




text \<open>
  C8. A cache made with \<open>maxEntries \<le> 0\<close> is disabled whatever the enabled flag says:
  no container is allocated, \<open>Get\<close> finds nothing, \<open>Set\<close> stores nothing, and no sequence
  of calls changes it.
\<close>

theorem Cache_nonpositive_disabled:
  assumes "sint maxEntries \<le> 0"
  shows "cache_New maxEntries ttl enabled = \<lparr> c_lru = None, c_ttl = 0, c_enabled = False \<rparr>
    \<and> \<not> IsEnabled (cache_New maxEntries ttl enabled)
    \<and> entries (cache_New maxEntries ttl enabled) = []
    \<and> (\<forall>now key. cache_Get (cache_New maxEntries ttl enabled) now key
           = Some (([], False), cache_New maxEntries ttl enabled))
    \<and> (\<forall>now key data. cache_Set (cache_New maxEntries ttl enabled) now key data
           = Some (cache_New maxEntries ttl enabled))
    \<and> (\<forall>ops. run_ops ops (cache_New maxEntries ttl enabled)
           = Some (cache_New maxEntries ttl enabled))"
proof -
  let ?c = "cache_New maxEntries ttl enabled"
  from assms have new: "?c = \<lparr> c_lru = None, c_ttl = 0, c_enabled = False \<rparr>"
    by (simp add: cache_New_def)
  have get: "cache_Get ?c now key = Some (([], False), ?c)" for now key
    by (simp add: new cache_Get_def)
  have set: "cache_Set ?c now key data = Some ?c" for now key data
    by (simp add: new cache_Set_def)
  have run: "run_ops ops ?c = Some ?c" for ops
  proof (induction ops)
    case Nil
    show ?case by simp
  next
    case (Cons op ops)
    then show ?case by (cases op) (simp_all add: get set)
  qed
  from new get set run show ?thesis
    by (simp add: IsEnabled_def entries_def)
qed

theorem Cache_nonpositive_disabled_witness:
  "sint (0 :: int64) \<le> 0
   \<and> cache_New 0 60 True = \<lparr> c_lru = None, c_ttl = 0, c_enabled = False \<rparr>
   \<and> cache_Get (cache_New 0 60 True) 5 ''k'' = Some (([], False), cache_New 0 60 True)
   \<and> run_ops [OpSet ''k'' ''data'' 1, OpGet ''k'' 2] (cache_New 0 60 True)
       = Some (cache_New 0 60 True)"
proof -
  have h: "sint (0 :: int64) \<le> 0" by simp
  from Cache_nonpositive_disabled [OF h, of 60 True] show ?thesis using h by blast
qed

section \<open>Claims about range requests\<close>

text \<open>
  C2. A payload of length \<open>L\<close> served for a header \<open>Range: bytes=start-end\<close>, a single
  range whose two parts hold no further hyphen; \<open>start\<close> and \<open>end\<close> are what \<open>Atoi\<close> reads
  from the parts, \<open>end\<close> is \<open>L - 1\<close> when its part is empty (and \<open>start\<close> is \<open>0\<close> when its
  part is empty, see C9). The answer is the 206 response with
  \<open>Content-Range: bytes start-end/L\<close> and the bytes \<open>start\<close> to \<open>end\<close> of the payload exactly
  when \<open>0 \<le> start\<close>, \<open>end < L\<close> and \<open>start \<le> end\<close>; otherwise it is status 416 with no
  body. Every header that is not of this form, or whose numbers do not parse, among
  them every multi-range header, gets status 416 with no body.
\<close>

theorem handleRangeRequest_single_range:
  assumes len: "length content < 2 ^ 63"
    and fresh: "r_status w = None" "r_body w = []"
  shows "(\<forall>s e start end.
            rangeHeader = ''bytes='' @ s @ ''-'' @ e
            \<and> CHR ''-'' \<notin> set s \<and> CHR ''-'' \<notin> set e
            \<and> (if s = [] then start = 0 else Atoi s = Some start)
            \<and> (if e = [] then end = word_of_nat (length content) - 1 else Atoi e = Some end)
          \<longrightarrow> handleRangeRequest w content rangeHeader =
                (if 0 \<le> sint start \<and> sint end < int (length content) \<and> sint start \<le> sint end
                 then Some (range_response w content start end)
                 else Some (w\<lparr> r_status := Some 416 \<rparr>)))
       \<and> ((\<nexists>s e start end.
              rangeHeader = ''bytes='' @ s @ ''-'' @ e
              \<and> CHR ''-'' \<notin> set s \<and> CHR ''-'' \<notin> set e
              \<and> (if s = [] then start = 0 else Atoi s = Some start)
              \<and> (if e = [] then end = word_of_nat (length content) - 1 else Atoi e = Some end))
          \<longrightarrow> handleRangeRequest w content rangeHeader = Some (w\<lparr> r_status := Some 416 \<rparr>))
       \<and> (\<forall>a b c. rangeHeader = ''bytes='' @ a @ ''-'' @ b @ ''-'' @ c
          \<longrightarrow> handleRangeRequest w content rangeHeader = Some (w\<lparr> r_status := Some 416 \<rparr>))
       \<and> r_body (w\<lparr> r_status := Some 416 \<rparr>) = []
       \<and> (\<forall>start end. r_status (range_response w content start end) = Some 206
            \<and> r_header (range_response w content start end) ''Content-Range''
                = Some (''bytes '' @ FormatInt start @ ''-'' @ FormatInt end @ ''/''
                         @ FormatInt (word_of_nat (length content)))
            \<and> r_body (range_response w content start end)
                = take (nat (sint end - sint start + 1)) (drop (nat (sint start)) content))"
proof (intro conjI allI impI)
  fix s e start fin
  assume "rangeHeader = ''bytes='' @ s @ ''-'' @ e
            \<and> CHR ''-'' \<notin> set s \<and> CHR ''-'' \<notin> set e
            \<and> (if s = [] then start = 0 else Atoi s = Some start)
            \<and> (if e = [] then fin = word_of_nat (length content) - 1 else Atoi e = Some fin)"
  then show "handleRangeRequest w content rangeHeader =
                (if 0 \<le> sint start \<and> sint fin < int (length content) \<and> sint start \<le> sint fin
                 then Some (range_response w content start fin)
                 else Some (w\<lparr> r_status := Some 416 \<rparr>))"
    by (rule range_request_form [OF len fresh])
next
  assume "\<nexists>s e start end.
              rangeHeader = ''bytes='' @ s @ ''-'' @ e
              \<and> CHR ''-'' \<notin> set s \<and> CHR ''-'' \<notin> set e
              \<and> (if s = [] then start = 0 else Atoi s = Some start)
              \<and> (if e = [] then end = word_of_nat (length content) - 1 else Atoi e = Some end)"
  then show "handleRangeRequest w content rangeHeader = Some (w\<lparr> r_status := Some 416 \<rparr>)"
    by (rule range_request_other [OF fresh(1)])
next
  fix a b c
  assume "rangeHeader = ''bytes='' @ a @ ''-'' @ b @ ''-'' @ c"
  then show "handleRangeRequest w content rangeHeader = Some (w\<lparr> r_status := Some 416 \<rparr>)"
    by (rule range_request_multi [OF fresh(1)])
qed (simp_all add: fresh range_response_def)

theorem handleRangeRequest_single_range_witness:
  "length ''0123456789'' < (2 :: nat) ^ 63
   \<and> handleRangeRequest \<lparr> r_header = Map.empty, r_status = None, r_body = [] \<rparr>
        ''0123456789'' ''bytes=0-4''
      = Some (range_response \<lparr> r_header = Map.empty, r_status = None, r_body = [] \<rparr>
               ''0123456789'' 0 4)
   \<and> r_header (range_response \<lparr> r_header = Map.empty, r_status = None, r_body = [] \<rparr>
        ''0123456789'' 0 4) ''Content-Range'' = Some ''bytes 0-4/10''
   \<and> r_body (range_response \<lparr> r_header = Map.empty, r_status = None, r_body = [] \<rparr>
        ''0123456789'' 0 4) = ''01234''
   \<and> handleRangeRequest \<lparr> r_header = Map.empty, r_status = None, r_body = [] \<rparr>
        ''0123456789'' ''bytes=8-20''
      = Some \<lparr> r_header = Map.empty, r_status = Some 416, r_body = [] \<rparr>
   \<and> handleRangeRequest \<lparr> r_header = Map.empty, r_status = None, r_body = [] \<rparr>
        ''0123456789'' ''bytes=0-1,3-4''
      = Some \<lparr> r_header = Map.empty, r_status = Some 416, r_body = [] \<rparr>"
proof -
  let ?w = "\<lparr> r_header = Map.empty, r_status = None, r_body = [] \<rparr>"
  let ?c = "''0123456789''"
  have len: "length ?c < (2 :: nat) ^ 63" by simp
  have p0: "Atoi ''0'' = Some 0" and p4: "Atoi ''4'' = Some 4"
    and p8: "Atoi ''8'' = Some 8" and p20: "Atoi ''20'' = Some 20"
    by (simp_all add: Atoi_def ParseInt_def ParseUint_def is_digit_def)
  have fr: "r_status ?w = None" "r_body ?w = []" by simp_all
  note t = handleRangeRequest_single_range [OF len fr]
  from t [of "''bytes=0-4''", THEN conjunct1, rule_format, of "''0''" "''4''" 0 4]
  have a: "handleRangeRequest ?w ?c ''bytes=0-4'' = Some (range_response ?w ?c 0 4)"
    by (simp add: p0 p4)
  from t [of "''bytes=8-20''", THEN conjunct1, rule_format, of "''8''" "''20''" 8 20]
  have b: "handleRangeRequest ?w ?c ''bytes=8-20'' = Some (?w\<lparr> r_status := Some 416 \<rparr>)"
    by (simp add: p8 p20)
  from t [of "''bytes=0-1,3-4''", THEN conjunct2, THEN conjunct2, THEN conjunct1, rule_format,
            of "''0''" "''1,3''" "''4''"]
  have c: "handleRangeRequest ?w ?c ''bytes=0-1,3-4'' = Some (?w\<lparr> r_status := Some 416 \<rparr>)"
    by simp
  have f: "FormatInt 0 = ''0''" "FormatInt 4 = ''4''" "FormatInt 10 = ''10''"
    by (simp_all add: FormatInt_def nat_digits.simps digit_char_def)
  from a b c len show ?thesis
    by (simp add: range_response_def f)
qed

text \<open>
  C9. A header \<open>bytes=-N\<close> with no start, for \<open>N\<close> less than the payload length: the
  start is read as 0 and the end as \<open>N\<close>; the answer is the 206 response with
  \<open>Content-Range: bytes 0-N/L\<close> and the first \<open>N + 1\<close> bytes of the payload.
\<close>

theorem handleRangeRequest_omitted_start:
  assumes len: "length content < 2 ^ 63"
    and fresh: "r_status w = None" "r_body w = []"
    and n: "n < length content"
  shows "handleRangeRequest w content (''bytes=-'' @ nat_digits n)
           = Some (range_response w content 0 (word_of_nat n))
    \<and> r_status (range_response w content 0 (word_of_nat n)) = Some 206
    \<and> r_header (range_response w content 0 (word_of_nat n)) ''Content-Range''
        = Some (''bytes 0-'' @ nat_digits n @ ''/'' @ nat_digits (length content))
    \<and> r_body (range_response w content 0 (word_of_nat n)) = take (Suc n) content"
proof -
  from n len have n63: "n < 2 ^ 63" by simp
  then have sn: "sint (word_of_nat n :: int64) = int n" by (rule sint_word_of_nat)
  have at: "Atoi (nat_digits n) = Some (word_of_nat n)"
    using n63 by (simp add: Atoi_def ParseInt_nat_digits)
  have form: "''bytes=-'' @ nat_digits n = ''bytes='' @ [] @ ''-'' @ nat_digits n
            \<and> CHR ''-'' \<notin> set [] \<and> CHR ''-'' \<notin> set (nat_digits n)
            \<and> (if ([] :: string) = [] then (0 :: int64) = 0 else Atoi [] = Some 0)
            \<and> (if nat_digits n = [] then word_of_nat n = word_of_nat (length content) - 1
                else Atoi (nat_digits n) = Some (word_of_nat n))"
    using nat_digits_no_sign [of n] by (simp add: at nat_digits_nonempty)
  from range_request_form [OF len fresh form] n
  have "handleRangeRequest w content (''bytes=-'' @ nat_digits n)
           = Some (range_response w content 0 (word_of_nat n))"
    by (simp add: sn)
  moreover have "FormatInt (0 :: int64) = ''0''"
    by (simp add: FormatInt_def nat_digits.simps digit_char_def)
  ultimately show ?thesis
    using n63 len by (simp add: range_response_def sn FormatInt_of_nat nat_add_distrib)
qed

theorem handleRangeRequest_omitted_start_witness:
  "length ''0123456789'' < (2 :: nat) ^ 63 \<and> (3 :: nat) < length ''0123456789''
   \<and> handleRangeRequest \<lparr> r_header = Map.empty, r_status = None, r_body = [] \<rparr>
        ''0123456789'' ''bytes=-3''
      = Some (range_response \<lparr> r_header = Map.empty, r_status = None, r_body = [] \<rparr>
               ''0123456789'' 0 3)
   \<and> r_header (range_response \<lparr> r_header = Map.empty, r_status = None, r_body = [] \<rparr>
        ''0123456789'' 0 3) ''Content-Range'' = Some ''bytes 0-3/10''
   \<and> r_body (range_response \<lparr> r_header = Map.empty, r_status = None, r_body = [] \<rparr>
        ''0123456789'' 0 3) = ''0123''"
proof -
  let ?w = "\<lparr> r_header = Map.empty, r_status = None, r_body = [] \<rparr>"
  have len: "length ''0123456789'' < (2 :: nat) ^ 63" by simp
  have n: "(3 :: nat) < length ''0123456789''" by simp
  have d: "nat_digits 3 = ''3''" "nat_digits 10 = ''10''"
    by (simp_all add: nat_digits.simps digit_char_def)
  have fr: "r_status ?w = None" "r_body ?w = []" by simp_all
  have l10: "length ''0123456789'' = (10 :: nat)" by simp
  from handleRangeRequest_omitted_start [OF len fr n] len n
  show ?thesis unfolding l10 d by simp
qed

section \<open>Claims about signatures\<close>

text \<open>
  C4, as amended. With signing enabled, let \<open>Generate\<close> at the instant \<open>now\<close> give the pair
  \<open>(sign, ts)\<close> for a URL. \<open>Verify\<close> of that pair under the same signer at an instant
  \<open>now'\<close>, not before \<open>now\<close> and at most \<open>ttlSeconds\<close> after it, succeeds. \<open>Verify\<close> fails
  under any other secret whose signature for the same URL and timestamp is a different
  text, for any timestamp text whose signature is a different text, and for any
  signature text other than \<open>sign\<close>.
\<close>

theorem Verify_Generate:
  assumes en: "s_enabled s" and gen: "Generate H s now url = Inr (sign, ts)"
  shows "(sint now \<le> sint now' \<and> sint now' - sint now \<le> sint (s_ttlSeconds s)
            \<longrightarrow> Verify H s now' url sign ts = None)
     \<and> (\<forall>secret'. signature H secret' url ts \<noteq> sign
            \<longrightarrow> Verify H (s\<lparr> s_secret := secret' \<rparr>) now' url sign ts \<noteq> None)
     \<and> (\<forall>ts'. signature H (s_secret s) url ts' \<noteq> sign
            \<longrightarrow> Verify H s now' url sign ts' \<noteq> None)
     \<and> (\<forall>sign'. sign' \<noteq> sign \<longrightarrow> Verify H s now' url sign' ts \<noteq> None)"
proof -
  from gen en have sg: "sign = signature H (s_secret s) url (FormatInt now)" and ts: "ts = FormatInt now"
    by (auto simp: Generate_enabled)
  have 1: "sint now \<le> sint now' \<and> sint now' - sint now \<le> sint (s_ttlSeconds s)
            \<longrightarrow> Verify H s now' url sign ts = None"
    unfolding sg ts using Verify_fresh [OF en] by blast
  have 2: "signature H secret' url ts \<noteq> sign
            \<longrightarrow> Verify H (s\<lparr> s_secret := secret' \<rparr>) now' url sign ts \<noteq> None" for secret'
  proof -
    have "s_enabled (s\<lparr> s_secret := secret' \<rparr>)" using en by simp
    from Verify_None_iff [OF this] show ?thesis by auto
  qed
  have 3: "signature H (s_secret s) url ts' \<noteq> sign \<longrightarrow> Verify H s now' url sign ts' \<noteq> None" for ts'
    using Verify_None_iff [OF en] by auto
  have 4: "sign' \<noteq> sign \<longrightarrow> Verify H s now' url sign' ts \<noteq> None" for sign'
    using Verify_None_iff [OF en] sg ts by auto
  from 1 2 3 4 show ?thesis by blast
qed

theorem Verify_Generate_witness:
  "s_enabled (signer_New ''k1'' 600 True)
   \<and> Generate example_hash (signer_New ''k1'' 600 True) 1700000000 ''u''
       = Inr (signature example_hash ''k1'' ''u'' ''1700000000'', ''1700000000'')
   \<and> Verify example_hash (signer_New ''k1'' 600 True) 1700000060 ''u''
       (signature example_hash ''k1'' ''u'' ''1700000000'') ''1700000000'' = None
   \<and> Verify example_hash (signer_New ''z2'' 600 True) 1700000060 ''u''
       (signature example_hash ''k1'' ''u'' ''1700000000'') ''1700000000'' \<noteq> None
   \<and> Verify example_hash (signer_New ''k1'' 600 True) 1700000060 ''u''
       (signature example_hash ''k1'' ''u'' ''1700000000'') ''1700000001'' \<noteq> None
   \<and> Verify example_hash (signer_New ''k1'' 600 True) 1700000060 ''u''
       ''00'' ''1700000000'' \<noteq> None"
proof -
  let ?s = "signer_New ''k1'' 600 True"
  let ?sig = "signature example_hash ''k1'' ''u'' ''1700000000''"
  have en: "s_enabled ?s" by (simp add: signer_New_def)
  have gen: "Generate example_hash ?s 1700000000 ''u'' = Inr (?sig, ''1700000000'')"
    by (simp add: Generate_enabled [OF en] example_format) (simp add: signer_New_def)
  have z: "?s\<lparr> s_secret := ''z2'' \<rparr> = signer_New ''z2'' 600 True"
    by (simp add: signer_New_def)
  have k: "s_secret ?s = ''k1''" "s_ttlSeconds ?s = 600" by (simp_all add: signer_New_def)
  have ne: "''00'' \<noteq> ?sig"
  proof
    assume "''00'' = ?sig"
    then have "length ''00'' = length ?sig" by simp
    then show False
      by (simp add: signature_def length_EncodeToString length_digest_bytes)
  qed
  note t = Verify_Generate [OF en gen, of 1700000060]
  from t have a: "Verify example_hash ?s 1700000060 ''u'' ?sig ''1700000000'' = None"
    by (simp add: k)
  from t [THEN conjunct2, THEN conjunct1, rule_format, of "''z2''"]
  have b: "Verify example_hash (signer_New ''z2'' 600 True) 1700000060 ''u'' ?sig ''1700000000'' \<noteq> None"
    unfolding z using example_signatures(1) by blast
  from t [THEN conjunct2, THEN conjunct2, THEN conjunct1, rule_format, of "''1700000001''"]
  have c: "Verify example_hash ?s 1700000060 ''u'' ?sig ''1700000001'' \<noteq> None"
    unfolding k using example_signatures(2) by blast
  from t [THEN conjunct2, THEN conjunct2, THEN conjunct2, rule_format, of "''00''"] ne
  have d: "Verify example_hash ?s 1700000060 ''u'' ''00'' ''1700000000'' \<noteq> None"
    by blast
  from en gen a b c d show ?thesis by blast
qed

text \<open>
  The claim as stated, that \<open>Verify\<close> fails whenever a different secret is used, does
  not hold: HMAC pads a key shorter than the block with zero bytes, so a secret and the
  same secret followed by a zero byte sign alike whatever the hash is
  (\<open>Verify_zero_padded_secret\<close>), and each verifies the other's tokens.
\<close>

theorem Verify_equivalent_secret_counterexample:
  "''k'' @ [CHR 0x00] \<noteq> ''k''
   \<and> Generate example_hash (signer_New ''k'' 600 True) 1700000000 ''u''
       = Inr (signature example_hash ''k'' ''u'' ''1700000000'', ''1700000000'')
   \<and> Verify example_hash (signer_New (''k'' @ [CHR 0x00]) 600 True) 1700000060 ''u''
       (signature example_hash ''k'' ''u'' ''1700000000'') ''1700000000'' = None"
proof -
  let ?s = "signer_New ''k'' 600 True"
  have en: "s_enabled ?s" and short: "length (s_secret ?s) < 64"
    by (simp_all add: signer_New_def)
  have gen: "Generate example_hash ?s 1700000000 ''u''
       = Inr (signature example_hash ''k'' ''u'' ''1700000000'', ''1700000000'')"
    by (simp add: Generate_enabled [OF en] example_format) (simp add: signer_New_def)
  have "Verify example_hash ?s 1700000060 ''u''
       (signature example_hash (s_secret ?s) ''u'' (FormatInt 1700000000)) (FormatInt 1700000000)
       = None"
    by (rule Verify_fresh [OF en]) (simp_all add: signer_New_def)
  from Verify_zero_padded_secret [OF en short this]
  have "Verify example_hash (signer_New (''k'' @ [CHR 0x00]) 600 True) 1700000060 ''u''
       (signature example_hash ''k'' ''u'' ''1700000000'') ''1700000000'' = None"
    by (simp add: signer_New_def example_format)
  with gen show ?thesis by simp
qed

text \<open>
  C5, as amended. \<open>Verify\<close> returns no error for every input when signing is disabled.
  With signing enabled and a timestamp whose distance from \<open>now\<close> fits in 64 bits, it
  fails exactly when the signature or the timestamp text is empty, when the timestamp
  is not a decimal integer of 64 bits, when \<open>now - timestamp > ttlSeconds\<close>, or when the
  signature text is not the recomputed one. With \<open>ttlSeconds \<ge> 0\<close> and the clock at or
  after the epoch, a timestamp strictly in the future never fails the elapsed-time
  check, so a token that carries it and the matching signature is accepted, however
  far in the future the timestamp lies.
\<close>

theorem Verify_exact:
  "(\<not> s_enabled s \<longrightarrow> Verify H s now url sign ts = None)
   \<and> (s_enabled s
        \<and> (\<forall>t. ParseInt ts = Some t \<longrightarrow> - (2 ^ 63) \<le> sint now - sint t \<and> sint now - sint t < 2 ^ 63)
       \<longrightarrow> (Verify H s now url sign ts \<noteq> None \<longleftrightarrow>
              sign = [] \<or> ts = [] \<or> ParseInt ts = None
              \<or> (\<exists>t. ParseInt ts = Some t \<and> sint now - sint t > sint (s_ttlSeconds s))
              \<or> sign \<noteq> signature H (s_secret s) url ts))
   \<and> (s_enabled s \<and> 0 \<le> sint (s_ttlSeconds s) \<and> 0 \<le> sint now
        \<and> ParseInt ts = Some t \<and> sint now < sint t
       \<longrightarrow> Verify H s now url sign ts \<noteq> Some SignatureExpired
           \<and> (sign = signature H (s_secret s) url ts \<longrightarrow> Verify H s now url sign ts = None))"
proof (intro conjI impI)
  assume "\<not> s_enabled s"
  then show "Verify H s now url sign ts = None" by (rule Verify_disabled)
next
  assume a: "s_enabled s
        \<and> (\<forall>t. ParseInt ts = Some t \<longrightarrow> - (2 ^ 63) \<le> sint now - sint t \<and> sint now - sint t < 2 ^ 63)"
  then have en: "s_enabled s" by simp
  have d: "sint (now - t) = sint now - sint t" if "ParseInt ts = Some t" for t
    using a that by (intro sint_diff_no_overflow) auto
  show "Verify H s now url sign ts \<noteq> None \<longleftrightarrow>
              sign = [] \<or> ts = [] \<or> ParseInt ts = None
              \<or> (\<exists>t. ParseInt ts = Some t \<and> sint now - sint t > sint (s_ttlSeconds s))
              \<or> sign \<noteq> signature H (s_secret s) url ts"
  proof (cases "ParseInt ts")
    case None
    then show ?thesis by (simp add: Verify_None_iff [OF en])
  next
    case (Some t0)
    with d [OF Some] show ?thesis by (auto simp: Verify_None_iff [OF en])
  qed
next
  assume a: "s_enabled s \<and> 0 \<le> sint (s_ttlSeconds s) \<and> 0 \<le> sint now
        \<and> ParseInt ts = Some t \<and> sint now < sint t"
  then have en: "s_enabled s" by simp
  from a Verify_future [of s now ts t] show "Verify H s now url sign ts \<noteq> Some SignatureExpired"
    by (simp add: Verify_expired_iff [OF en])
next
  assume a: "s_enabled s \<and> 0 \<le> sint (s_ttlSeconds s) \<and> 0 \<le> sint now
        \<and> ParseInt ts = Some t \<and> sint now < sint t"
    and sg: "sign = signature H (s_secret s) url ts"
  then have en: "s_enabled s" and p: "ParseInt ts = Some t" by simp_all
  from p have tne: "ts \<noteq> []" by (auto simp: ParseInt_def)
  from a Verify_future [of s now ts t] sg tne show "Verify H s now url sign ts = None"
    by (simp add: Verify_None_iff [OF en] signature_nonempty)
qed

theorem Verify_exact_witness:
  "s_enabled (signer_New ''k1'' 600 True)
   \<and> Verify example_hash (signer_New ''k1'' 600 False) 5 ''u'' [] [] = None
   \<and> Verify example_hash (signer_New ''k1'' 600 True) 1700000599 ''u''
       (signature example_hash ''k1'' ''u'' ''1700000000'') ''1700000000'' = None
   \<and> Verify example_hash (signer_New ''k1'' 600 True) 1700000601 ''u''
       (signature example_hash ''k1'' ''u'' ''1700000000'') ''1700000000'' \<noteq> None
   \<and> Verify example_hash (signer_New ''k1'' 600 True) 1700000000 ''u''
       (signature example_hash ''k1'' ''u'' ''1800000000'') ''1800000000'' = None"
proof -
  let ?s = "signer_New ''k1'' 600 True"
  have en: "s_enabled ?s" and k: "s_secret ?s = ''k1''" "s_ttlSeconds ?s = 600"
    by (simp_all add: signer_New_def)
  have off: "\<not> s_enabled (signer_New ''k1'' 600 False)" by (simp add: signer_New_def)
  note ne = signature_nonempty [of example_hash "''k1''" "''u''"]
  from Verify_exact [of "signer_New ''k1'' 600 False" example_hash 5 "''u''" "[]" "[]"] off
  have a: "Verify example_hash (signer_New ''k1'' 600 False) 5 ''u'' [] [] = None" by blast
  from Verify_exact [of ?s example_hash 1700000599 "''u''"
      "signature example_hash ''k1'' ''u'' ''1700000000''" "''1700000000''",
      THEN conjunct2, THEN conjunct1]
  have b: "Verify example_hash ?s 1700000599 ''u''
       (signature example_hash ''k1'' ''u'' ''1700000000'') ''1700000000'' = None"
    using en ne by (simp add: k example_parse)
  from Verify_exact [of ?s example_hash 1700000601 "''u''"
      "signature example_hash ''k1'' ''u'' ''1700000000''" "''1700000000''",
      THEN conjunct2, THEN conjunct1]
  have c: "Verify example_hash ?s 1700000601 ''u''
       (signature example_hash ''k1'' ''u'' ''1700000000'') ''1700000000'' \<noteq> None"
    using en ne by (simp add: k example_parse)
  from Verify_exact [of ?s example_hash 1700000000 "''u''"
      "signature example_hash ''k1'' ''u'' ''1800000000''" "''1800000000''" 1800000000,
      THEN conjunct2, THEN conjunct2]
  have d: "Verify example_hash ?s 1700000000 ''u''
       (signature example_hash ''k1'' ''u'' ''1800000000'') ''1800000000'' = None"
    using en by (simp add: k example_parse)
  from en a b c d show ?thesis by blast
qed

text \<open>
  The claim as stated fails in two places. With a negative \<open>ttlSeconds\<close>, a timestamp one
  second in the future is rejected as expired. And the difference \<open>now - timestamp\<close> is
  computed in 64 bits: for a timestamp of \<open>-2^63\<close> it wraps around to a negative number,
  so the token passes the elapsed-time check although \<open>now - timestamp > ttlSeconds\<close>.
\<close>

theorem Verify_elapsed_counterexample:
  "Verify example_hash (signer_New ''k'' (- 10) True) 100 ''u'' ''00'' ''101''
     = Some SignatureExpired
   \<and> sint (1700000000 :: int64) - sint (- 9223372036854775808 :: int64) > sint (600 :: int64)
   \<and> Verify example_hash (signer_New ''k'' 600 True) 1700000000 ''u''
       (signature example_hash ''k'' ''u'' ''-9223372036854775808'') ''-9223372036854775808''
     = None"
proof -
  have en1: "s_enabled (signer_New ''k'' (- 10) True)" and en2: "s_enabled (signer_New ''k'' 600 True)"
    by (simp_all add: signer_New_def)
  have a: "Verify example_hash (signer_New ''k'' (- 10) True) 100 ''u'' ''00'' ''101''
     = Some SignatureExpired"
    unfolding Verify_expired_iff [OF en1] by (simp add: signer_New_def example_parse)
  have b: "sint (1700000000 :: int64) - sint (- 9223372036854775808 :: int64) > sint (600 :: int64)"
    by simp
  have c: "Verify example_hash (signer_New ''k'' 600 True) 1700000000 ''u''
       (signature example_hash ''k'' ''u'' ''-9223372036854775808'') ''-9223372036854775808''
     = None"
    unfolding Verify_None_iff [OF en2]
    using signature_nonempty [of example_hash "''k''" "''u''" "''-9223372036854775808''"]
    by (simp add: signer_New_def example_parse)
  from a b c show ?thesis by blast
qed

section \<open>Claims about the playlist rewriter\<close>

text \<open>
  C1, as amended. \<open>Rewrite\<close> splits the content at line feeds, trims each line, maps it,
  and joins the results with line feeds. A blank line and a line that starts with \<open>#\<close>
  pass through unchanged, except a line with the prefix \<open>#EXT-X-KEY:\<close>. Such a line,
  when its attribute list does not begin with the \<open>URI\<close> attribute, is split at every
  comma; a piece whose trimmed text is \<open>URI=\<close> followed by a double-quoted value is
  replaced by \<open>URI=\<close> and, in double quotes, the key-endpoint URL of the resolved value;
  every other piece stays as it is, and the pieces are joined with commas in their
  order. Every other non-blank line is replaced by the segment-endpoint URL of the
  resolved line. An endpoint URL is base + prefix + \<open>?u=\<close> + the query-escaped resolved
  URL, followed by \<open>&\<close> and the sign parameters when these are not empty, as they are
  whenever signing is enabled and the request was verified. A reference with the prefix
  \<open>http://\<close> or \<open>https://\<close> resolves to itself; another one resolves to the text of the
  reference parsed against the parsed playlist URL, and to itself when either parse
  fails.
\<close>

theorem Rewrite_lines:
  "Rewrite L r content originalURL
      = Join (map (rewrite_line L r originalURL) (Split content (CHR 0x0A))) [CHR 0x0A]
   \<and> (\<forall>raw. (TrimSpace raw = [] \<or> HasPrefix (TrimSpace raw) ''#'')
          \<and> \<not> HasPrefix (TrimSpace raw) ''#EXT-X-KEY:''
        \<longrightarrow> rewrite_line L r originalURL raw = TrimSpace raw)
   \<and> (\<forall>raw. HasPrefix (TrimSpace raw) ''#EXT-X-KEY:''
          \<and> \<not> HasPrefix (TrimSpace (drop 11 (TrimSpace raw))) ''URI=''
        \<longrightarrow> rewrite_line L r originalURL raw
            = Join (map (key_part L r originalURL) (Split (TrimSpace raw) (CHR '',''))) '','')
   \<and> (\<forall>part v. TrimSpace part = ''URI='' @ [CHR 0x22] @ v @ [CHR 0x22]
        \<longrightarrow> key_part L r originalURL part
            = ''URI='' @ [CHR 0x22]
                @ rw_baseURL r @ rw_keyPrefix r @ ''?u='' @ QueryEscape (resolveURL L v originalURL)
                @ (if rw_signParams r = [] then [] else ''&'' @ rw_signParams r)
                @ [CHR 0x22])
   \<and> (\<forall>part. (\<nexists>v. TrimSpace part = ''URI='' @ [CHR 0x22] @ v @ [CHR 0x22])
        \<longrightarrow> key_part L r originalURL part = part)
   \<and> (\<forall>raw. TrimSpace raw \<noteq> [] \<and> \<not> HasPrefix (TrimSpace raw) ''#''
        \<longrightarrow> rewrite_line L r originalURL raw
            = rw_baseURL r @ rw_segPrefix r @ ''?u=''
                @ QueryEscape (resolveURL L (TrimSpace raw) originalURL)
                @ (if rw_signParams r = [] then [] else ''&'' @ rw_signParams r))
   \<and> (\<forall>u. HasPrefix u ''http://'' \<or> HasPrefix u ''https://''
        \<longrightarrow> resolveURL L u originalURL = u)
   \<and> (\<forall>u base resolved. \<not> HasPrefix u ''http://'' \<and> \<not> HasPrefix u ''https://''
          \<and> url_Parse L originalURL = Some base \<and> url_ParseRef L base u = Some resolved
        \<longrightarrow> resolveURL L u originalURL = url_String L resolved)
   \<and> (\<forall>u. \<not> HasPrefix u ''http://'' \<and> \<not> HasPrefix u ''https://''
          \<and> (url_Parse L originalURL = None
              \<or> (\<exists>base. url_Parse L originalURL = Some base \<and> url_ParseRef L base u = None))
        \<longrightarrow> resolveURL L u originalURL = u)
   \<and> (\<forall>H s now sign ts. s_enabled s \<and> Verify H s now originalURL sign ts = None
        \<longrightarrow> BuildSignParams sign ts = ''sign='' @ QueryEscape sign @ ''&ts='' @ QueryEscape ts
           \<and> BuildSignParams sign ts \<noteq> [])"
proof -
  have 1: "Rewrite L r content originalURL
      = Join (map (rewrite_line L r originalURL) (Split content (CHR 0x0A))) [CHR 0x0A]"
    by (rule Rewrite_map)
  have 2: "\<forall>raw. (TrimSpace raw = [] \<or> HasPrefix (TrimSpace raw) ''#'')
          \<and> \<not> HasPrefix (TrimSpace raw) ''#EXT-X-KEY:''
        \<longrightarrow> rewrite_line L r originalURL raw = TrimSpace raw"
    using rewrite_line_directive by blast
  have 3: "\<forall>raw. HasPrefix (TrimSpace raw) ''#EXT-X-KEY:''
          \<and> \<not> HasPrefix (TrimSpace (drop 11 (TrimSpace raw))) ''URI=''
        \<longrightarrow> rewrite_line L r originalURL raw
            = Join (map (key_part L r originalURL) (Split (TrimSpace raw) (CHR '',''))) '',''"
    using rewrite_line_key by blast
  have 4: "\<forall>part v. TrimSpace part = ''URI='' @ [CHR 0x22] @ v @ [CHR 0x22]
        \<longrightarrow> key_part L r originalURL part
            = ''URI='' @ [CHR 0x22]
                @ rw_baseURL r @ rw_keyPrefix r @ ''?u='' @ QueryEscape (resolveURL L v originalURL)
                @ (if rw_signParams r = [] then [] else ''&'' @ rw_signParams r)
                @ [CHR 0x22]"
    by (simp add: key_part_quoted buildKeyURL_eq)
  have 5: "\<forall>part. (\<nexists>v. TrimSpace part = ''URI='' @ [CHR 0x22] @ v @ [CHR 0x22])
        \<longrightarrow> key_part L r originalURL part = part"
    using key_part_other by blast
  have 6: "\<forall>raw. TrimSpace raw \<noteq> [] \<and> \<not> HasPrefix (TrimSpace raw) ''#''
        \<longrightarrow> rewrite_line L r originalURL raw
            = rw_baseURL r @ rw_segPrefix r @ ''?u=''
                @ QueryEscape (resolveURL L (TrimSpace raw) originalURL)
                @ (if rw_signParams r = [] then [] else ''&'' @ rw_signParams r)"
    using rewrite_line_reference by blast
  note 7 = resolveURL_cases [of _ L originalURL]
  have 8: "\<forall>H s now sign ts. s_enabled s \<and> Verify H s now originalURL sign ts = None
        \<longrightarrow> BuildSignParams sign ts = ''sign='' @ QueryEscape sign @ ''&ts='' @ QueryEscape ts
           \<and> BuildSignParams sign ts \<noteq> []"
    using BuildSignParams_verified by blast
  from 1 2 3 4 5 6 7 8 show ?thesis by blast
qed

theorem Rewrite_lines_witness:
  "Rewrite simple_urls example_rewriter example_playlist example_url
     = Join [''#EXTM3U'',
             ''#EXT-X-KEY:METHOD=AES-128,URI='' @ [CHR 0x22]
               @ ''/key?u=https%3A%2F%2Fcdn.example.com%2Fv%2Fkey.bin&sign=ab&ts=17'' @ [CHR 0x22],
             ''/seg?u=https%3A%2F%2Fcdn.example.com%2Fv%2Fseg0.ts&sign=ab&ts=17'',
             ''/seg?u=https%3A%2F%2Fcdn.example.com%2Fv%2Fseg1.ts&sign=ab&ts=17'',
             []] [CHR 0x0A]
   \<and> TrimSpace '' seg1.ts'' = ''seg1.ts''
   \<and> rewrite_line simple_urls example_rewriter example_url '' seg1.ts''
       = rw_baseURL example_rewriter @ rw_segPrefix example_rewriter @ ''?u=''
           @ QueryEscape ''https://cdn.example.com/v/seg1.ts''
           @ ''&'' @ rw_signParams example_rewriter"
proof -
  note t = Rewrite_lines [of simple_urls example_rewriter example_playlist example_url]
  from t [THEN conjunct1] have a:
    "Rewrite simple_urls example_rewriter example_playlist example_url
     = Join [''#EXTM3U'',
             ''#EXT-X-KEY:METHOD=AES-128,URI='' @ [CHR 0x22]
               @ ''/key?u=https%3A%2F%2Fcdn.example.com%2Fv%2Fkey.bin&sign=ab&ts=17'' @ [CHR 0x22],
             ''/seg?u=https%3A%2F%2Fcdn.example.com%2Fv%2Fseg0.ts&sign=ab&ts=17'',
             ''/seg?u=https%3A%2F%2Fcdn.example.com%2Fv%2Fseg1.ts&sign=ab&ts=17'',
             []] [CHR 0x0A]"
    by (simp only: example_lines)
  have ne: "rw_signParams example_rewriter \<noteq> []"
    by (simp add: example_rewriter_def NewM3U8Rewriter_def BuildSignParams_def)
  have h: "TrimSpace '' seg1.ts'' \<noteq> [] \<and> \<not> HasPrefix (TrimSpace '' seg1.ts'') ''#''"
    by (simp add: example_trims HasPrefix_def)
  from t [THEN conjunct2, THEN conjunct2, THEN conjunct2, THEN conjunct2, THEN conjunct2,
          THEN conjunct1, rule_format, OF h]
  have b: "rewrite_line simple_urls example_rewriter example_url '' seg1.ts''
       = rw_baseURL example_rewriter @ rw_segPrefix example_rewriter @ ''?u=''
           @ QueryEscape ''https://cdn.example.com/v/seg1.ts''
           @ ''&'' @ rw_signParams example_rewriter"
    using ne by (simp add: example_trims example_resolve)
  from a b example_trims(1) show ?thesis by blast
qed

text \<open>
  The claim as stated, that the quoted \<open>URI\<close> value of every key line is replaced and
  that every other reference is resolved against the playlist URL, fails on a quoted
  value with a comma inside, which comes back unchanged, and on a reference that does
  not parse (here an invalid escape, which \<open>net/url\<close> refuses as this instance does),
  which is passed on unresolved.
\<close>

theorem Rewrite_key_comma_counterexample:
  "Rewrite simple_urls example_rewriter comma_key_line example_url = comma_key_line
   \<and> comma_key_line \<noteq> ''#EXT-X-KEY:METHOD=AES-128,URI='' @ [CHR 0x22]
        @ buildKeyURL example_rewriter (resolveURL simple_urls ''a,b.key'' example_url)
        @ [CHR 0x22]
   \<and> Rewrite simple_urls example_rewriter ''%zz.ts'' example_url
       = ''/seg?u=%25zz.ts&sign=ab&ts=17''
   \<and> ''/seg?u=%25zz.ts&sign=ab&ts=17''
       \<noteq> buildSegmentURL example_rewriter ''https://cdn.example.com/v/%zz.ts''"
  using example_comma(2,3) example_not_rewritten by blast

text \<open>
  C10. \<open>rewriteKeyLine\<close> splits the line at every comma and maps the pieces one by one.
  A piece whose trimmed text is \<open>URI=\<close> and a double-quoted value is rewritten, and such
  a value holds no comma. A piece whose value lacks the opening or the closing double
  quote stays as it is; so does the piece \<open>URI="...\<close> that the split leaves of a quoted
  value with a comma inside, and a line with no rewritable piece comes back unchanged.
\<close>

theorem rewriteKeyLine_pieces:
  "rewriteKeyLine L r line baseURL
      = Join (map (key_part L r baseURL) (Split line (CHR '',''))) '',''
   \<and> (\<forall>part v. TrimSpace part = ''URI='' @ [CHR 0x22] @ v @ [CHR 0x22]
        \<longrightarrow> key_part L r baseURL part
            = ''URI='' @ [CHR 0x22] @ buildKeyURL r (resolveURL L v baseURL) @ [CHR 0x22])
   \<and> (\<forall>part v. part \<in> set (Split line (CHR '','')) 
          \<and> TrimSpace part = ''URI='' @ [CHR 0x22] @ v @ [CHR 0x22]
        \<longrightarrow> CHR '','' \<notin> set v)
   \<and> (\<forall>part x. TrimSpace part = ''URI='' @ x
          \<and> (length x < 2 \<or> hd x \<noteq> CHR 0x22 \<or> last x \<noteq> CHR 0x22)
        \<longrightarrow> key_part L r baseURL part = part)
   \<and> (\<forall>part. \<not> HasPrefix (TrimSpace part) ''URI='' \<longrightarrow> key_part L r baseURL part = part)
   \<and> (\<forall>v1. CHR 0x22 \<notin> set v1
        \<longrightarrow> key_part L r baseURL (''URI='' @ [CHR 0x22] @ v1) = ''URI='' @ [CHR 0x22] @ v1)
   \<and> ((\<forall>part \<in> set (Split line (CHR '','')).
          \<nexists>v. TrimSpace part = ''URI='' @ [CHR 0x22] @ v @ [CHR 0x22])
        \<longrightarrow> rewriteKeyLine L r line baseURL = line)"
proof (intro conjI allI impI)
  show "rewriteKeyLine L r line baseURL
      = Join (map (key_part L r baseURL) (Split line (CHR '',''))) '',''"
    by (rule rewriteKeyLine_map)
next
  fix part v
  assume "TrimSpace part = ''URI='' @ [CHR 0x22] @ v @ [CHR 0x22]"
  then show "key_part L r baseURL part
            = ''URI='' @ [CHR 0x22] @ buildKeyURL r (resolveURL L v baseURL) @ [CHR 0x22]"
    by (rule key_part_quoted)
next
  fix part v
  assume "part \<in> set (Split line (CHR '','')) 
          \<and> TrimSpace part = ''URI='' @ [CHR 0x22] @ v @ [CHR 0x22]"
  then show "CHR '','' \<notin> set v" using quoted_comma_free by blast
next
  fix part x
  assume "TrimSpace part = ''URI='' @ x
          \<and> (length x < 2 \<or> hd x \<noteq> CHR 0x22 \<or> last x \<noteq> CHR 0x22)"
  then have "\<nexists>v. TrimSpace part = ''URI='' @ [CHR 0x22] @ v @ [CHR 0x22]"
    using unquoted_value by blast
  then show "key_part L r baseURL part = part" by (rule key_part_other)
next
  fix part
  assume "\<not> HasPrefix (TrimSpace part) ''URI=''"
  then have "\<nexists>v. TrimSpace part = ''URI='' @ [CHR 0x22] @ v @ [CHR 0x22]"
    by (rule not_URI_piece)
  then show "key_part L r baseURL part = part" by (rule key_part_other)
next
  fix v1 :: string
  assume "CHR 0x22 \<notin> set v1"
  then have "\<nexists>v. TrimSpace (''URI='' @ [CHR 0x22] @ v1) = ''URI='' @ [CHR 0x22] @ v @ [CHR 0x22]"
    by (rule open_quote_piece)
  then show "key_part L r baseURL (''URI='' @ [CHR 0x22] @ v1) = ''URI='' @ [CHR 0x22] @ v1"
    by (rule key_part_other)
next
  assume "\<forall>part \<in> set (Split line (CHR '','')).
          \<nexists>v. TrimSpace part = ''URI='' @ [CHR 0x22] @ v @ [CHR 0x22]"
  then show "rewriteKeyLine L r line baseURL = line" by (rule rewriteKeyLine_unchanged)
qed

theorem rewriteKeyLine_pieces_witness:
  "TrimSpace (''URI='' @ [CHR 0x22] @ ''key.bin'' @ [CHR 0x22])
     = ''URI='' @ [CHR 0x22] @ ''key.bin'' @ [CHR 0x22]
   \<and> key_part simple_urls example_rewriter example_url
         (''URI='' @ [CHR 0x22] @ ''key.bin'' @ [CHR 0x22])
       = ''URI='' @ [CHR 0x22]
           @ ''/key?u=https%3A%2F%2Fcdn.example.com%2Fv%2Fkey.bin&sign=ab&ts=17'' @ [CHR 0x22]
   \<and> CHR 0x22 \<notin> set ''a''
   \<and> key_part simple_urls example_rewriter example_url (''URI='' @ [CHR 0x22] @ ''a'')
       = ''URI='' @ [CHR 0x22] @ ''a''
   \<and> rewriteKeyLine simple_urls example_rewriter comma_key_line example_url = comma_key_line"
proof -
  note t = rewriteKeyLine_pieces [of simple_urls example_rewriter comma_key_line example_url]
  from t [THEN conjunct2, THEN conjunct1, rule_format, OF example_trims(2)]
  have a: "key_part simple_urls example_rewriter example_url
         (''URI='' @ [CHR 0x22] @ ''key.bin'' @ [CHR 0x22])
       = ''URI='' @ [CHR 0x22]
           @ ''/key?u=https%3A%2F%2Fcdn.example.com%2Fv%2Fkey.bin&sign=ab&ts=17'' @ [CHR 0x22]"
    by (simp only: example_resolve example_key_url)
  have q: "CHR 0x22 \<notin> set ''a''" by simp
  from t [THEN conjunct2, THEN conjunct2, THEN conjunct2, THEN conjunct2, THEN conjunct2,
          THEN conjunct1, rule_format, OF q]
  have b: "key_part simple_urls example_rewriter example_url (''URI='' @ [CHR 0x22] @ ''a'')
       = ''URI='' @ [CHR 0x22] @ ''a''" .
  from a b q example_trims(2) example_comma(1) show ?thesis by blast
qed

end
